theory Spec2Isabelle
  imports Main "HOL-Library.Word"
begin

section \<open>Diagnostics\<close>

text \<open>
  The analyzer reports through the global sink \<open>diag\<close>. The sink is modelled as a list of
  messages in emission order; each constructor stands for one message of the source, named
  after its text. Functions are referred to by their identity (a natural number standing for
  the \<open>FunctionDefn *\<close>).
\<close>

datatype Pass =
    ScopeCreationPass
  | BaseTypesPass
  | AttributePass
  | NamingConflictPass
  | ConverterPass
  | ConstructorPass
  | MemberTypePass
  | FieldPass
  | FieldTypePass
  | MethodPass
  | OverloadingPass
  | CompletionPass

text \<open>The kinds of definition (\<open>Defn::DefnType\<close>).\<close>

datatype DefnType =
    Defn_Typedef
  | Defn_Namespace
  | Defn_Var
  | Defn_Let
  | Defn_Function
  | Defn_Property
  | Defn_Indexer
  | Defn_Parameter
  | Defn_Mod
  | Defn_ExplicitImport

datatype Diag =
    InfiniteRecursion Pass
  | CircularInheritance
  | NameConflict string
  | NameConflictInfo string
  | InterfaceCannotBeFinal
  | ProtocolCannotBeFinal
  | CannotInheritFrom
  | BaseTypeIsTemplate
  | BaseTypeIsFinal
  | ClassSingleSupertype
  | ClassBaseKind
  | StructBaseKind
  | StructSingleSupertype
  | InterfaceBaseKind
  | DataMemberInInterface string
  | NoSuperDefaultConstructor
  | UnimplementedDefaultInit string
  | ConstructorReturnType
  | ConstructorNotInstance
  | ConstructNotMethod
  | DefaultConstructorNotSingular
  | SignatureConflict nat
  | SignatureFromHere nat
  | ShouldDeclareOverride nat
  | HiddenWarning nat
  | HiddenBy nat
  | InvalidAccessorOverride nat
  | AccessorBy nat
  | UndefNotOverride nat
  | LacksDefinition
  | LacksInfo nat
  | UnimplementedInterface nat
  | UnimplementedInfo nat

section \<open>Pass registry\<close>

text \<open>
  Modelled from the spec: the enumeration of passes of \<open>CompositeType\<close> and its order are
  declared in \<open>CompositeType.h\<close>, which is not among the sources; the order below is the
  topological order that section 4.1 of the specification gives.
\<close>

definition passOrder :: "Pass list" where
  "passOrder =
     [ScopeCreationPass, BaseTypesPass, AttributePass, NamingConflictPass, ConverterPass,
      ConstructorPass, MemberTypePass, FieldPass, FieldTypePass, MethodPass, OverloadingPass,
      CompletionPass]"

fun indexOf :: "'a \<Rightarrow> 'a list \<Rightarrow> nat" where
  "indexOf x [] = 0"
| "indexOf x (y # ys) = (if x = y then 0 else Suc (indexOf x ys))"

definition precedes :: "Pass \<Rightarrow> Pass \<Rightarrow> bool" where
  "precedes q p \<longleftrightarrow> indexOf q passOrder < indexOf p passOrder"

text \<open>
  The state of one composite type as far as the pass machinery is concerned: the two
  bitsets of its \<open>passes()\<close> and the diagnostics emitted so far.
\<close>

record TypeState =
  running :: "Pass set"
  finished :: "Pass set"
  diags :: "Diag list"

definition freshType :: TypeState where
  "freshType = \<lparr>running = {}, finished = {}, diags = []\<rparr>"

definition isRunning :: "Pass \<Rightarrow> TypeState \<Rightarrow> bool" where
  "isRunning p st \<longleftrightarrow> p \<in> running st"

definition isFinished :: "Pass \<Rightarrow> TypeState \<Rightarrow> bool" where
  "isFinished p st \<longleftrightarrow> p \<in> finished st"

text \<open>
  Modelled from the spec: \<open>PassMgr::begin\<close> and \<open>PassMgr::finish\<close> are defined in a header
  that is not among the sources. Section 4.1: if \<open>finished\<close> contains the pass, return false
  and do nothing; if \<open>running\<close> contains it, signal the circular dependency (unless the
  caller passed the quiet flag, as \<open>analyzeFieldTypes\<close> and \<open>analyzeCompletely\<close> do) and
  return false; otherwise mark it running and return true. \<open>finish\<close> clears \<open>running\<close> and
  adds to \<open>finished\<close>. \<open>Defn::beginPass\<close> in \<open>Defn.cpp\<close> has the same shape.
\<close>

definition beginPass :: "Pass \<Rightarrow> bool \<Rightarrow> TypeState \<Rightarrow> bool \<times> TypeState" where
  "beginPass p quiet st =
     (if p \<in> finished st then (False, st)
      else if p \<in> running st then
        (False, if quiet then st else st\<lparr>diags := diags st @ [InfiniteRecursion p]\<rparr>)
      else (True, st\<lparr>running := insert p (running st)\<rparr>))"

definition finishPass :: "Pass \<Rightarrow> TypeState \<Rightarrow> TypeState" where
  "finishPass p st = st\<lparr>running := running st - {p}, finished := insert p (finished st)\<rparr>"

section \<open>Tasks and their pass sets (ClassAnalyzer.cpp, lines 26-86)\<close>

datatype AnalysisTask =
    Task_PrepTypeComparison
  | Task_PrepMemberLookup
  | Task_PrepConstruction
  | Task_PrepConversion
  | Task_PrepEvaluation
  | Task_PrepTypeGeneration
  | Task_PrepCodeGeneration
  | Task_Other

definition PASS_SET_RESOLVE_TYPE :: "Pass set" where
  "PASS_SET_RESOLVE_TYPE = {ScopeCreationPass, BaseTypesPass}"

definition PASS_SET_LOOKUP :: "Pass set" where
  "PASS_SET_LOOKUP = {ScopeCreationPass, BaseTypesPass, AttributePass}"

definition PASS_SET_CONSTRUCTION :: "Pass set" where
  "PASS_SET_CONSTRUCTION =
     {ScopeCreationPass, BaseTypesPass, AttributePass, NamingConflictPass, ConstructorPass}"

definition PASS_SET_CONVERSION :: "Pass set" where
  "PASS_SET_CONVERSION =
     {ScopeCreationPass, BaseTypesPass, AttributePass, NamingConflictPass, ConverterPass}"

definition PASS_SET_EVALUATION :: "Pass set" where
  "PASS_SET_EVALUATION =
     {ScopeCreationPass, BaseTypesPass, AttributePass, NamingConflictPass, ConverterPass,
      MemberTypePass, FieldPass, MethodPass, OverloadingPass}"

definition PASS_SET_TYPEGEN :: "Pass set" where
  "PASS_SET_TYPEGEN =
     {ScopeCreationPass, BaseTypesPass, NamingConflictPass, AttributePass, FieldPass,
      FieldTypePass}"

definition PASS_SET_CODEGEN :: "Pass set" where
  "PASS_SET_CODEGEN =
     {ScopeCreationPass, BaseTypesPass, AttributePass, NamingConflictPass, ConverterPass,
      ConstructorPass, MemberTypePass, FieldPass, MethodPass, OverloadingPass, CompletionPass}"

text \<open>
  What \<open>runPasses\<close> needs to know about the target and about the analyses it delegates to.
  The two flags are \<open>target->isTemplate()\<close> and \<open>target->isTemplateMember()\<close>. The other
  fields are what \<open>checkNameConflicts\<close> reads of the symbol table (for each name, the
  \<open>defnType()\<close> of its definitions in order), and the boolean results of the analyses whose
  bodies work on the members, the AST and other types: \<open>createMembersFromAST\<close>,
  \<open>resolveAttributes\<close>, \<open>analyzeBaseClassesImpl\<close> (modelled in detail below) and the
  analysis of the superclass constructors inside \<open>analyzeConstructors\<close>. Every other
  pass analyzer of the source returns true on all paths.
\<close>

record Target =
  isTemplate :: bool
  isTemplateMember :: bool
  createMembersFromAST :: bool
  resolveAttributes :: bool
  memberKinds :: "(string \<times> DefnType list) list"
  baseClassesImplOk :: bool
  superConstructionOk :: bool

type_synonym analyzer = "TypeState \<Rightarrow> bool \<times> TypeState"

text \<open>The shape shared by the analyzers that cannot fail:
  \<open>if (begin(p)) { ...; finish(p); } return true;\<close>\<close>

definition simplePass :: "Pass \<Rightarrow> bool \<Rightarrow> analyzer" where
  "simplePass p quiet st =
     (case beginPass p quiet st of
        (True, st1) \<Rightarrow> (True, finishPass p st1)
      | (False, st1) \<Rightarrow> (True, st1))"

text \<open>Lines 147-154 and 163-170: the scope creation pass, written inline in \<open>runPasses\<close>.\<close>

definition scopeCreation :: "Target \<Rightarrow> analyzer" where
  "scopeCreation tg st =
     (case beginPass ScopeCreationPass False st of
        (True, st1) \<Rightarrow>
          if \<not> createMembersFromAST tg then (False, st1)
          else (True, finishPass ScopeCreationPass st1)
      | (False, st1) \<Rightarrow> (True, st1))"

text \<open>Lines 172-179: the attribute pass, written inline in \<open>runPasses\<close>.\<close>

definition attributePass :: "Target \<Rightarrow> analyzer" where
  "attributePass tg st =
     (case beginPass AttributePass False st of
        (True, st1) \<Rightarrow>
          if \<not> resolveAttributes tg then (False, st1)
          else (True, finishPass AttributePass st1)
      | (False, st1) \<Rightarrow> (True, st1))"

text \<open>Lines 232-244, one entry of the symbol table: the first definition whose kind
  differs from that of the front definition is reported, with a note on the front one.\<close>

definition conflictOf :: "string \<times> DefnType list \<Rightarrow> Diag list" where
  "conflictOf entry =
     (case snd entry of
        [] \<Rightarrow> []
      | dtype # rest \<Rightarrow>
          if find (\<lambda>d. d \<noteq> dtype) rest \<noteq> None
          then [NameConflict (fst entry), NameConflictInfo (fst entry)] else [])"

text \<open>Lines 224-251. The pass is finished whether or not a conflict was found.\<close>

definition checkNameConflicts :: "Target \<Rightarrow> analyzer" where
  "checkNameConflicts tg st =
     (case beginPass NamingConflictPass False st of
        (True, st1) \<Rightarrow>
          (let ds = concat (map conflictOf (memberKinds tg)) in
           (ds = [], finishPass NamingConflictPass (st1\<lparr>diags := diags st1 @ ds\<rparr>)))
      | (False, st1) \<Rightarrow> (True, st1))"

text \<open>Lines 253-267.\<close>

definition analyzeBaseClasses :: "Target \<Rightarrow> analyzer" where
  "analyzeBaseClasses tg st =
     (if isRunning BaseTypesPass st then
        (False, st\<lparr>diags := diags st @ [CircularInheritance]\<rparr>)
      else
        (case beginPass BaseTypesPass False st of
           (False, st1) \<Rightarrow> (True, st1)
         | (True, st1) \<Rightarrow> (baseClassesImplOk tg, finishPass BaseTypesPass st1)))"

text \<open>Lines 533-619: the only failing path returns before \<open>finish\<close>. What happens
  between \<open>begin\<close> and \<open>finish\<close> is \<open>analyzeConstructorsBody\<close> below; likewise
  \<open>analyzeFieldsBody\<close> for the field pass and \<open>analyzeOverloadingBody\<close> for the
  overloading pass.\<close>

definition analyzeConstructors :: "Target \<Rightarrow> analyzer" where
  "analyzeConstructors tg st =
     (case beginPass ConstructorPass False st of
        (True, st1) \<Rightarrow>
          if \<not> superConstructionOk tg then (False, st1)
          else (True, finishPass ConstructorPass st1)
      | (False, st1) \<Rightarrow> (True, st1))"

definition analyzeMemberTypes :: analyzer where
  "analyzeMemberTypes = simplePass MemberTypePass False"

definition analyzeFields :: analyzer where
  "analyzeFields = simplePass FieldPass False"

definition analyzeConverters :: analyzer where
  "analyzeConverters = simplePass ConverterPass False"

definition analyzeMethods :: analyzer where
  "analyzeMethods = simplePass MethodPass False"

definition analyzeOverloading :: analyzer where
  "analyzeOverloading = simplePass OverloadingPass False"

definition analyzeFieldTypes :: analyzer where
  "analyzeFieldTypes = simplePass FieldTypePass True"

definition analyzeCompletely :: analyzer where
  "analyzeCompletely = simplePass CompletionPass True"

text \<open>
  One line of \<open>runPasses\<close>: \<open>if (passesToRun.contains(p) && !analyzer()) return false;\<close>
  and the sequence of such lines.
\<close>

definition whenContains :: "Pass set \<Rightarrow> Pass \<Rightarrow> analyzer \<Rightarrow> analyzer" where
  "whenContains passesToRun p f st = (if p \<in> passesToRun then f st else (True, st))"

fun runSteps :: "analyzer list \<Rightarrow> analyzer" where
  "runSteps [] st = (True, st)"
| "runSteps (f # fs) st =
     (case f st of
        (True, st1) \<Rightarrow> runSteps fs st1
      | (False, st1) \<Rightarrow> (False, st1))"

text \<open>Lines 130-222.\<close>

definition runPasses :: "Target \<Rightarrow> Pass set \<Rightarrow> analyzer" where
  "runPasses tg passSet st =
     (let passesToRun = passSet - finished st in
      if passesToRun = {} then (True, st)
      else if isTemplate tg then
        runSteps
          [whenContains passesToRun BaseTypesPass (analyzeBaseClasses tg),
           whenContains passesToRun ScopeCreationPass (scopeCreation tg)] st
      else if isTemplateMember tg then (True, st)
      else
        runSteps
          [whenContains passesToRun ScopeCreationPass (scopeCreation tg),
           whenContains passesToRun AttributePass (attributePass tg),
           whenContains passesToRun NamingConflictPass (checkNameConflicts tg),
           whenContains passesToRun BaseTypesPass (analyzeBaseClasses tg),
           whenContains passesToRun MemberTypePass analyzeMemberTypes,
           whenContains passesToRun FieldPass analyzeFields,
           whenContains passesToRun ConverterPass analyzeConverters,
           whenContains passesToRun ConstructorPass (analyzeConstructors tg),
           whenContains passesToRun MethodPass analyzeMethods,
           whenContains passesToRun OverloadingPass analyzeOverloading,
           whenContains passesToRun FieldTypePass analyzeFieldTypes,
           whenContains passesToRun CompletionPass analyzeCompletely] st)"

text \<open>Lines 100-128.\<close>

fun analyze :: "Target \<Rightarrow> AnalysisTask \<Rightarrow> analyzer" where
  "analyze tg Task_PrepTypeComparison st = runPasses tg PASS_SET_RESOLVE_TYPE st"
| "analyze tg Task_PrepMemberLookup st = runPasses tg PASS_SET_LOOKUP st"
| "analyze tg Task_PrepConstruction st = runPasses tg PASS_SET_CONSTRUCTION st"
| "analyze tg Task_PrepConversion st = runPasses tg PASS_SET_CONVERSION st"
| "analyze tg Task_PrepEvaluation st = runPasses tg PASS_SET_EVALUATION st"
| "analyze tg Task_PrepTypeGeneration st = runPasses tg PASS_SET_TYPEGEN st"
| "analyze tg Task_PrepCodeGeneration st = runPasses tg PASS_SET_CODEGEN st"
| "analyze tg Task_Other st = (True, st)"

text \<open>The pass set that \<open>analyze\<close> hands to \<open>runPasses\<close> for a task.\<close>

fun passSetOf :: "AnalysisTask \<Rightarrow> Pass set" where
  "passSetOf Task_PrepTypeComparison = PASS_SET_RESOLVE_TYPE"
| "passSetOf Task_PrepMemberLookup = PASS_SET_LOOKUP"
| "passSetOf Task_PrepConstruction = PASS_SET_CONSTRUCTION"
| "passSetOf Task_PrepConversion = PASS_SET_CONVERSION"
| "passSetOf Task_PrepEvaluation = PASS_SET_EVALUATION"
| "passSetOf Task_PrepTypeGeneration = PASS_SET_TYPEGEN"
| "passSetOf Task_PrepCodeGeneration = PASS_SET_CODEGEN"
| "passSetOf Task_Other = {}"

text \<open>
  A sequence of \<open>analyze\<close> calls on one type, in order: the state after the calls, and
  whether every call returned true.
\<close>

fun analyzeSeq :: "Target \<Rightarrow> AnalysisTask list \<Rightarrow> TypeState \<Rightarrow> TypeState" where
  "analyzeSeq tg [] st = st"
| "analyzeSeq tg (t # ts) st = analyzeSeq tg ts (snd (analyze tg t st))"

fun allSucceed :: "Target \<Rightarrow> AnalysisTask list \<Rightarrow> TypeState \<Rightarrow> bool" where
  "allSucceed tg [] st = True"
| "allSucceed tg (t # ts) st =
     (fst (analyze tg t st) \<and> allSucceed tg ts (snd (analyze tg t st)))"

text \<open>An ordinary (non-template) class all of whose delegated analyses succeed.\<close>

definition plainTarget :: Target where
  "plainTarget =
     \<lparr>isTemplate = False, isTemplateMember = False, createMembersFromAST = True,
      resolveAttributes = True, memberKinds = [], baseClassesImplOk = True,
      superConstructionOk = True\<rparr>"

section \<open>Base classes (ClassAnalyzer.cpp, lines 269-404)\<close>

text \<open>
  The kinds of composite type. A base that resolves to anything else is rejected at
  line 310 before its kind is looked at.
\<close>

datatype TypeClass = Type_Class | Type_Struct | Type_Interface | Type_Protocol

text \<open>A failed \<open>DFAIL\<close> or \<open>DASSERT\<close>: the compiler stops.\<close>

datatype Abort = IllegalState | ImplementMe | Implement | AssertionFailed

text \<open>
  One entry of \<open>ast->bases()\<close> with what the loop body asks about it: whether
  \<open>typeFromAST\<close> gave an error result, whether the type has a definition and is a
  \<open>CompositeType\<close>, \<open>isSingular()\<close>, \<open>isFinal()\<close> of its definition, the result of the
  recursive \<open>analyze(Task_PrepMemberLookup)\<close>, its \<open>typeClass()\<close>, and the identity of the
  \<open>CompositeType\<close>.
\<close>

record BaseRef =
  baseIsError :: bool
  baseIsComposite :: bool
  baseIsSingular :: bool
  baseIsFinal :: bool
  basePrepared :: bool
  baseKind :: TypeClass
  baseType :: nat

text \<open>
  The target of the base-class analysis: whether it has an AST, \<open>isFromTemplate\<close>,
  \<open>type->isSingular()\<close>, \<open>isFinal()\<close>, its \<open>typeClass()\<close>, whether it is
  \<open>Builtins::typeObject\<close>, and the identity of \<open>Builtins::typeObject\<close>.
\<close>

record BaseTarget =
  hasAST :: bool
  isFromTemplate :: bool
  targetIsSingular :: bool
  targetIsFinal :: bool
  targetKind :: TypeClass
  targetIsObject :: bool
  typeObject :: nat

text \<open>
  What the analysis writes: the local \<open>primaryBase\<close>, \<open>type->bases()\<close>, \<open>type->super()\<close>
  and the diagnostics. The calls that register symbols with the module and copy
  attributes are not represented.
\<close>

record BaseState =
  primaryBase :: "nat option"
  bases :: "nat list"
  super :: "nat option"
  baseDiags :: "Diag list"

definition baseError :: "Diag \<Rightarrow> BaseState \<Rightarrow> BaseState" where
  "baseError d s = s\<lparr>baseDiags := baseDiags s @ [d]\<rparr>"

text \<open>
  Lines 329-368, the switch on the kind of the target: whether the base becomes the primary
  base, and the diagnostics. The argument \<open>noPrimary\<close> is \<open>primaryBase == NULL\<close>.
\<close>

fun selectPrimary :: "TypeClass \<Rightarrow> TypeClass \<Rightarrow> bool \<Rightarrow> Abort + (bool \<times> Diag list)" where
  "selectPrimary Type_Class bk noPrimary =
     (if bk = Type_Class then
        (if noPrimary then Inr (True, []) else Inr (False, [ClassSingleSupertype]))
      else if bk \<noteq> Type_Interface then Inr (False, [ClassBaseKind])
      else Inr (False, []))"
| "selectPrimary Type_Struct bk noPrimary =
     (if bk \<noteq> Type_Struct \<and> bk \<noteq> Type_Protocol then Inr (False, [StructBaseKind])
      else if noPrimary then Inr (True, [])
      else Inr (False, [StructSingleSupertype]))"
| "selectPrimary Type_Interface bk noPrimary =
     (if bk \<noteq> Type_Interface \<and> bk \<noteq> Type_Protocol then Inr (False, [InterfaceBaseKind])
      else if noPrimary then Inr (True, [])
      else Inr (False, []))"
| "selectPrimary Type_Protocol bk noPrimary = Inl IllegalState"

text \<open>Lines 303-382, the loop over the AST bases. \<open>Inr (False, s)\<close> is \<open>return false\<close>.\<close>

fun analyzeBases :: "BaseTarget \<Rightarrow> BaseRef list \<Rightarrow> BaseState \<Rightarrow> Abort + (bool \<times> BaseState)" where
  "analyzeBases tg [] s = Inr (True, s)"
| "analyzeBases tg (b # bs) s =
     (if baseIsError b then Inr (False, s)
      else if \<not> baseIsComposite b then Inr (False, baseError CannotInheritFrom s)
      else if \<not> baseIsSingular b \<and> \<not> isFromTemplate tg then
        Inr (False, baseError BaseTypeIsTemplate s)
      else
        let s1 = (if baseIsFinal b then baseError BaseTypeIsFinal s else s) in
        if \<not> basePrepared b then Inr (False, s1)
        else
          (case selectPrimary (targetKind tg) (baseKind b) (primaryBase s1 = None) of
             Inl a \<Rightarrow> Inl a
           | Inr (isPrimary, ds) \<Rightarrow>
               let s2 = s1\<lparr>baseDiags := baseDiags s1 @ ds\<rparr> in
               analyzeBases tg bs
                 (if isPrimary then s2\<lparr>primaryBase := Some (baseType b)\<rparr>
                  else s2\<lparr>bases := bases s2 @ [baseType b]\<rparr>)))"

text \<open>Lines 285-292.\<close>

definition checkFinality :: "BaseTarget \<Rightarrow> BaseState \<Rightarrow> BaseState" where
  "checkFinality tg s =
     (if targetIsFinal tg then
        (if targetKind tg = Type_Interface then baseError InterfaceCannotBeFinal s
         else if targetKind tg = Type_Protocol then baseError ProtocolCannotBeFinal s
         else s)
      else s)"

text \<open>Lines 384-403, after the loop.\<close>

definition setSuper :: "BaseTarget \<Rightarrow> BaseState \<Rightarrow> BaseState" where
  "setSuper tg s =
     (let primary =
        (if targetKind tg = Type_Class \<and> primaryBase s = None \<and> \<not> targetIsObject tg
         then Some (typeObject tg) else primaryBase s)
      in case primary of
           None \<Rightarrow> s\<lparr>primaryBase := primary, super := primary\<rparr>
         | Some p \<Rightarrow> s\<lparr>primaryBase := primary, super := primary, bases := p # bases s\<rparr>)"

text \<open>Lines 269-404. The two assertions of lines 282-283 come after the test for a missing
  AST: the target is singular unless it comes from a template, and \<open>super\<close> is unset.\<close>

definition analyzeBaseClassesImpl ::
  "BaseTarget \<Rightarrow> BaseRef list \<Rightarrow> BaseState \<Rightarrow> Abort + (bool \<times> BaseState)" where
  "analyzeBaseClassesImpl tg astBases s =
     (if \<not> hasAST tg then Inr (True, s)
      else if \<not> (isFromTemplate tg \<or> targetIsSingular tg) then Inl AssertionFailed
      else if super s \<noteq> None then Inl AssertionFailed
      else
        (case analyzeBases tg astBases (checkFinality tg (s\<lparr>primaryBase := None\<rparr>)) of
           Inl a \<Rightarrow> Inl a
         | Inr (False, s1) \<Rightarrow> Inr (False, s1)
         | Inr (True, s1) \<Rightarrow> Inr (True, setSuper tg s1)))"

text \<open>The state on entry: no base recorded yet.\<close>

definition noBases :: BaseState where
  "noBases = \<lparr>primaryBase = None, bases = [], super = None, baseDiags = []\<rparr>"

text \<open>A base is eligible as primary base of a struct or an interface when it is of the
  target's own kind or a protocol (lines 346 and 357).\<close>

definition eligible :: "BaseTarget \<Rightarrow> BaseRef \<Rightarrow> bool" where
  "eligible tg b \<longleftrightarrow> baseKind b = targetKind tg \<or> baseKind b = Type_Protocol"

text \<open>Inputs used as examples: a struct declared in the source, a protocol base and a
  struct base, both resolved, singular, not final and prepared.\<close>

definition structTarget :: BaseTarget where
  "structTarget =
     \<lparr>hasAST = True, isFromTemplate = False, targetIsSingular = True, targetIsFinal = False,
      targetKind = Type_Struct,
      targetIsObject = False, typeObject = 0\<rparr>"

definition protocolBase :: BaseRef where
  "protocolBase =
     \<lparr>baseIsError = False, baseIsComposite = True, baseIsSingular = True, baseIsFinal = False,
      basePrepared = True, baseKind = Type_Protocol, baseType = 7\<rparr>"

definition structBase :: BaseRef where
  "structBase =
     \<lparr>baseIsError = False, baseIsComposite = True, baseIsSingular = True, baseIsFinal = False,
      basePrepared = True, baseKind = Type_Struct, baseType = 8\<rparr>"


section \<open>Members of a composite type\<close>

datatype StorageClass = Storage_Global | Storage_Instance | Storage_Static | Storage_Local

datatype Visibility = Public | Protected | Private

text \<open>An expression, as far as the analyses below look at it: its identity and
  \<open>isConstant()\<close>.\<close>

record Expr =
  exprId :: nat
  isConstant :: bool

text \<open>
  One definition in the scope of the type (the chain \<open>firstMember()\<close>, \<open>nextInScope()\<close>),
  with what the field and constructor analyses read or write: its name, \<open>defnType()\<close>,
  \<open>storageClass()\<close>, \<open>visibility()\<close>; for a variable its \<open>initValue()\<close> (\<open>None\<close> is
  \<open>NULL\<close>), the \<open>nullInitValue()\<close> of its type, whether the type is a native array,
  whether the type is defined (after \<open>analyzeValueDefn\<close>), whether it is defined and
  singular, and the two indices that \<open>analyzeFields\<close> sets (C++ \<open>int\<close>: 32-bit words,
  read as signed numbers by \<open>sint\<close>); for a function the result of analysing its signature
  and whether it declares a non-void return type.
\<close>

record Member =
  defnName :: string
  defnType :: DefnType
  storageClass :: StorageClass
  visibility :: Visibility
  initValue :: "Expr option"
  typeNullInit :: "Expr option"
  typeIsNArray :: bool
  typeIsDefined :: bool
  typeIsSingular :: bool
  memberIndex :: "32 word"
  memberIndexRecursive :: "32 word"
  signatureOk :: bool
  returnsNonVoid :: bool

section \<open>Fields (ClassAnalyzer.cpp, lines 457-531)\<close>

text \<open>The locals \<open>instanceFieldCount\<close> and \<open>instanceFieldCountRecursive\<close> (C++ \<open>int\<close>, so
  32-bit words on which \<open>++\<close> wraps), the two field lists of the type (\<open>None\<close> is the \<open>NULL\<close>
  pushed for the superclass) and the diagnostics.\<close>

record FieldState =
  instanceFieldCount :: "32 word"
  instanceFieldCountRecursive :: "32 word"
  instanceFields :: "Member option list"
  staticFields :: "Member list"
  fieldDiags :: "Diag list"

text \<open>Lines 487-493.\<close>

definition isStorageRequired :: "Member \<Rightarrow> bool" where
  "isStorageRequired field \<longleftrightarrow>
     \<not> (defnType field = Defn_Let \<and>
        (case initValue field of None \<Rightarrow> False | Some e \<Rightarrow> isConstant e))"

text \<open>Lines 478-523, one member: the member as the step leaves it, and the new state. The
  assertion of line 485 stops the compiler when the type of a variable is still undefined
  after \<open>analyzeValueDefn\<close>. Copying the trait \<open>Final\<close> (line 482) is not represented.\<close>

definition fieldStep ::
  "TypeClass \<Rightarrow> Member \<Rightarrow> FieldState \<Rightarrow> Abort + (Member \<times> FieldState)" where
  "fieldStep tc member s =
     (if defnType member = Defn_Var \<or> defnType member = Defn_Let then
        if \<not> typeIsDefined member then Inl AssertionFailed
        else if isStorageRequired member then
          let s1 = (if tc = Type_Interface
                    then s\<lparr>fieldDiags := fieldDiags s @ [DataMemberInInterface (defnName member)]\<rparr>
                    else s)
          in
          if storageClass member = Storage_Instance then
            let field = member\<lparr>memberIndex := instanceFieldCount s1,
                                memberIndexRecursive := instanceFieldCountRecursive s1\<rparr>
            in Inr (field,
                s1\<lparr>instanceFieldCount := instanceFieldCount s1 + 1,
                   instanceFieldCountRecursive := instanceFieldCountRecursive s1 + 1,
                   instanceFields := instanceFields s1 @ [Some field]\<rparr>)
          else if storageClass member = Storage_Static then
            Inr (member, s1\<lparr>staticFields := staticFields s1 @ [member]\<rparr>)
          else Inr (member, s1)
        else Inr (member, s)
      else Inr (member, s))"

fun fieldLoop ::
  "TypeClass \<Rightarrow> Member list \<Rightarrow> FieldState \<Rightarrow> Abort + (Member list \<times> FieldState)" where
  "fieldLoop tc [] s = Inr ([], s)"
| "fieldLoop tc (member # rest) s =
     (case fieldStep tc member s of
        Inl a \<Rightarrow> Inl a
      | Inr (field, s1) \<Rightarrow>
          (case fieldLoop tc rest s1 of
             Inl a \<Rightarrow> Inl a
           | Inr (rest1, s2) \<Rightarrow> Inr (field # rest1, s2)))"

text \<open>
  A type of the super chain, as far as the field pass of a subtype touches it: what
  \<open>runPasses\<close> needs to know about it, its pass registry, and its \<open>instanceFields_\<close>.
\<close>

record SuperType =
  superTarget :: Target
  superPasses :: TypeState
  superInstanceFields :: "Member option list"

text \<open>
  Modelled from the spec: \<open>CompositeType::instanceFieldCountRecursive()\<close> is defined in a
  header that is not among the sources. Sections 2 and 4.3: the cumulative field count
  across the supertype chain; slot 0 of \<open>instanceFields\<close>, reserved for the super, is not a
  field. The argument is the chain from the type itself up to the root, and the count is
  taken from the field lists as they stand.
\<close>

definition fieldCountRecursive :: "SuperType list \<Rightarrow> 32 word" where
  "fieldCountRecursive chain =
     of_nat (sum_list (map (\<lambda>t. length (filter (\<lambda>f. f \<noteq> None) (superInstanceFields t))) chain))"

text \<open>Lines 466-468: the super is analysed for the task \<open>Task_PrepTypeComparison\<close> unless its
  field pass is finished; the result of the call is not looked at.\<close>

definition prepareSuper :: "SuperType \<Rightarrow> SuperType" where
  "prepareSuper sc =
     (if \<not> isFinished FieldPass (superPasses sc)
      then sc\<lparr>superPasses :=
                 snd (analyze (superTarget sc) Task_PrepTypeComparison (superPasses sc))\<rparr>
      else sc)"

text \<open>
  The body of the pass, between \<open>begin\<close> and \<open>finish\<close>. \<open>chain\<close> is the super chain of the
  type, nearest first, empty when \<open>type->super()\<close> is \<open>NULL\<close>; \<open>fields0\<close> is
  \<open>instanceFields_\<close> on entry. The result is the chain, the members and the state as the
  pass leaves them. The assertion of line 526 is the last step; it compares a \<open>size_t\<close>
  with an \<open>int\<close>, which is converted to \<open>size_t\<close> (taken to be 64 bits wide).
\<close>

definition analyzeFieldsBody ::
  "TypeClass \<Rightarrow> SuperType list \<Rightarrow> Member list \<Rightarrow> Member option list \<Rightarrow>
   Abort + (SuperType list \<times> Member list \<times> FieldState)" where
  "analyzeFieldsBody tc chain members fields0 =
     (let chain1 = (case chain of [] \<Rightarrow> [] | sc # rest \<Rightarrow> prepareSuper sc # rest);
          s0 =
            (case chain1 of
               [] \<Rightarrow>
                 \<lparr>instanceFieldCount = 0, instanceFieldCountRecursive = 0,
                  instanceFields = fields0, staticFields = [], fieldDiags = []\<rparr>
             | sc # rest \<Rightarrow>
                 \<lparr>instanceFieldCount = 1,
                  instanceFieldCountRecursive = fieldCountRecursive chain1,
                  instanceFields = fields0 @ [None], staticFields = [], fieldDiags = []\<rparr>)
      in case fieldLoop tc members s0 of
           Inl a \<Rightarrow> Inl a
         | Inr (members1, s) \<Rightarrow>
             if (of_nat (length (instanceFields s)) :: 64 word) = scast (instanceFieldCount s)
             then Inr (chain1, members1, s) else Inl AssertionFailed)"

text \<open>The members that occupy an instance slot: variables that need storage and have
  instance storage class (the tests of lines 479-480, 495 and 500).\<close>

definition isStored :: "Member \<Rightarrow> bool" where
  "isStored m \<longleftrightarrow>
     (defnType m = Defn_Var \<or> defnType m = Defn_Let) \<and> isStorageRequired m \<and>
     storageClass m = Storage_Instance"

definition storedFields :: "Member list \<Rightarrow> Member list" where
  "storedFields ms = filter isStored ms"

text \<open>
  The members with the indices of the claimed layout: the \<open>k\<close>-th member, when it occupies
  an instance slot, gets the per-type index \<open>first\<close> plus the number of slot-occupying
  members before it, and the recursive index \<open>firstRec\<close> plus that number; every other
  member is unchanged.
\<close>

definition withIndices :: "32 word \<Rightarrow> 32 word \<Rightarrow> Member list \<Rightarrow> Member list" where
  "withIndices first firstRec ms =
     map (\<lambda>k. if isStored (ms ! k)
               then (ms ! k)\<lparr>memberIndex := first + of_nat (length (storedFields (take k ms))),
                             memberIndexRecursive :=
                               firstRec + of_nat (length (storedFields (take k ms)))\<rparr>
               else ms ! k)
       [0..<length ms]"

section \<open>Constructors (ClassAnalyzer.cpp, lines 533-619 and 1059-1206)\<close>






















section \<open>Overloading (ClassAnalyzer.cpp, lines 715-1057)\<close>

text \<open>
  A function definition, as far as the overloading pass reads or writes it: its name; the
  name of its parent definition when that is a property or indexer (the \<open>dyn_cast_or_null\<close>
  of line 1027); storage class and the traits and flags that the pass tests; whether its
  parameter list is empty; and the two attributes the pass writes, the dispatch index
  (\<open>-1\<close> when unset) and the set of overridden methods. Functions and composite types are
  referred to by identity.
\<close>

record FunctionDefn =
  fnName :: string
  fnParentProperty :: "string option"
  fnStorage :: StorageClass
  fnSingular :: bool
  fnCtor :: bool
  fnFinal :: bool
  fnUndefined :: bool
  fnOverride :: bool
  fnHasBody :: bool
  fnExtern :: bool
  fnIntrinsic :: bool
  fnNoParams :: bool
  dispatchIndex :: int
  overriddenMethods :: "nat set"

record PropertyDefn =
  propName :: string
  propStorage :: StorageClass
  propSingular :: bool
  getter :: "nat option"
  setter :: "nat option"

text \<open>A definition in the scope of the type: a function, a property or indexer, or
  something else (with its storage class and singularity, which line 891 tests).\<close>

datatype Defn =
    FunctionMember nat
  | PropertyMember PropertyDefn
  | OtherMember StorageClass bool

record CompositeType =
  typeClass :: TypeClass
  typeSingular :: bool
  typeSuper :: "nat option"
  typeBases :: "nat list"
  instanceMethods :: "nat list"
  interfaces :: "(nat \<times> nat list) list"

text \<open>The objects the pass works on: the composite types, the function definitions, and
  the diagnostics emitted so far.\<close>

record World =
  types :: "nat \<Rightarrow> CompositeType"
  funcs :: "nat \<Rightarrow> FunctionDefn"
  messages :: "Diag list"

text \<open>
  The target of the pass and what the pass takes from code that is not among the sources:
  the members in scope order and the symbol table in iteration order (name, definitions of
  that name); the result of \<open>ancestorClasses\<close>; the result of \<open>findBaseImplementationOf\<close>
  for each interface (the method list of the table found in the base chain, \<open>None\<close> for
  \<open>NULL\<close>); and the predicates \<open>canOverride\<close> (new method, then inherited method) and
  \<open>hasSameSignature\<close> of the function layer.
\<close>

record OverloadTarget =
  target :: nat
  targetAbstract :: bool
  scopeMembers :: "Defn list"
  symbols :: "(string \<times> Defn list) list"
  ancestors :: "nat list"
  findBaseImplementationOf :: "nat \<Rightarrow> nat list option"
  canOverride :: "nat \<Rightarrow> nat \<Rightarrow> bool"
  hasSameSignature :: "nat \<Rightarrow> nat \<Rightarrow> bool"

definition emit :: "Diag list \<Rightarrow> World \<Rightarrow> World" where
  "emit ds w = w\<lparr>messages := messages w @ ds\<rparr>"

definition setDispatchIndex :: "nat \<Rightarrow> int \<Rightarrow> World \<Rightarrow> World" where
  "setDispatchIndex f i w = w\<lparr>funcs := (funcs w)(f := (funcs w f)\<lparr>dispatchIndex := i\<rparr>)\<rparr>"

definition insertOverridden :: "nat \<Rightarrow> nat \<Rightarrow> World \<Rightarrow> World" where
  "insertOverridden f m w =
     w\<lparr>funcs := (funcs w)(f := (funcs w f)\<lparr>overriddenMethods :=
          insert m (overriddenMethods (funcs w f))\<rparr>)\<rparr>"

definition setInstanceMethods :: "nat \<Rightarrow> nat list \<Rightarrow> World \<Rightarrow> World" where
  "setInstanceMethods t ms w = w\<lparr>types := (types w)(t := (types w t)\<lparr>instanceMethods := ms\<rparr>)\<rparr>"

definition setInterfaces :: "nat \<Rightarrow> (nat \<times> nat list) list \<Rightarrow> World \<Rightarrow> World" where
  "setInterfaces t its w = w\<lparr>types := (types w)(t := (types w t)\<lparr>interfaces := its\<rparr>)\<rparr>"

text \<open>Lines 736-754.\<close>

definition copyBaseClassMethods :: "OverloadTarget \<Rightarrow> World \<Rightarrow> Abort + World" where
  "copyBaseClassMethods tg w =
     (let type = types w (target tg);
          tcls = typeClass type;
          superClass =
            (if typeSuper type = None \<and> (tcls = Type_Interface \<or> tcls = Type_Struct) \<and>
                typeBases type \<noteq> []
             then Some (hd (typeBases type)) else typeSuper type)
      in case superClass of
           None \<Rightarrow> Inr w
         | Some sc \<Rightarrow>
             if \<not> typeSingular (types w sc) then Inl AssertionFailed
             else Inr (setInstanceMethods (target tg)
                        (instanceMethods type @ instanceMethods (types w sc)) w))"

text \<open>Lines 759-777: the interfaces that get a table of their own. The class sets are
  lists without repetition.\<close>

definition interfaceTypes :: "OverloadTarget \<Rightarrow> World \<Rightarrow> nat list" where
  "interfaceTypes tg w =
     foldl (\<lambda>its base. case typeBases (types w base) of
                         [] \<Rightarrow> its
                       | baseBase # _ \<Rightarrow> removeAll baseBase its)
       (ancestors tg)
       (if target tg \<in> set (ancestors tg) then ancestors tg else ancestors tg @ [target tg])"

text \<open>Lines 780-797.\<close>

fun createTables :: "OverloadTarget \<Rightarrow> nat list \<Rightarrow> World \<Rightarrow> Abort + World" where
  "createTables tg [] w = Inr w"
| "createTables tg (itype # rest) w =
     (if typeClass (types w itype) \<noteq> Type_Interface then Inl AssertionFailed
      else
        (case findBaseImplementationOf tg itype of
           Some parentMethods \<Rightarrow>
             if length (instanceMethods (types w itype)) \<noteq> length parentMethods
             then Inl AssertionFailed
             else createTables tg rest
                    (setInterfaces (target tg)
                       (interfaces (types w (target tg)) @ [(itype, parentMethods)]) w)
         | None \<Rightarrow>
             createTables tg rest
               (setInterfaces (target tg)
                  (interfaces (types w (target tg)) @
                     [(itype, instanceMethods (types w itype))]) w)))"

definition createInterfaceTables :: "OverloadTarget \<Rightarrow> World \<Rightarrow> Abort + World" where
  "createInterfaceTables tg w = createTables tg (interfaceTypes tg w) w"

text \<open>Lines 1049-1057.\<close>

definition findOverride :: "(nat \<Rightarrow> nat \<Rightarrow> bool) \<Rightarrow> nat \<Rightarrow> nat list \<Rightarrow> nat option" where
  "findOverride co f overrides = find (\<lambda>n. co n f) overrides"

text \<open>Lines 995-1017, the body of the loop of \<open>overrideMethods\<close> for slot \<open>i\<close> with occupant
  \<open>m\<close>: the new occupant and the new state.\<close>

definition overrideSlot ::
  "(nat \<Rightarrow> nat \<Rightarrow> bool) \<Rightarrow> string \<Rightarrow> nat list \<Rightarrow> bool \<Rightarrow> nat \<Rightarrow> nat \<Rightarrow> World \<Rightarrow> nat \<times> World" where
  "overrideSlot co name overrides canHide i m w =
     (if fnName (funcs w m) = name then
        (case findOverride co m overrides of
           Some newMethod \<Rightarrow>
             let w1 = (if canHide \<and> dispatchIndex (funcs w newMethod) < 0
                       then setDispatchIndex newMethod (int i) w else w);
                 w2 = (if fnHasBody (funcs w1 m) \<and> \<not> fnOverride (funcs w1 newMethod)
                       then emit [ShouldDeclareOverride newMethod] w1 else w1)
             in (newMethod, insertOverridden newMethod m w2)
         | None \<Rightarrow>
             (m, if canHide then emit (HiddenWarning m # map HiddenBy overrides) w else w))
      else (m, w))"

text \<open>The loop over the slots, from slot \<open>i\<close> on. A later slot is read after the earlier
  ones were written, but no iteration writes a slot other than its own.\<close>

fun overrideSlots ::
  "(nat \<Rightarrow> nat \<Rightarrow> bool) \<Rightarrow> string \<Rightarrow> nat list \<Rightarrow> bool \<Rightarrow> nat \<Rightarrow> nat list \<Rightarrow> World \<Rightarrow>
   nat list \<times> World" where
  "overrideSlots co name overrides canHide i [] w = ([], w)"
| "overrideSlots co name overrides canHide i (m # rest) w =
     (case overrideSlot co name overrides canHide i m w of
        (m1, w1) \<Rightarrow>
          (case overrideSlots co name overrides canHide (Suc i) rest w1 of
             (rest1, w2) \<Rightarrow> (m1 # rest1, w2)))"

text \<open>Lines 985-1019. The callers pass a non-empty list of overrides; its first element
  gives the name.\<close>

definition overrideMethods ::
  "(nat \<Rightarrow> nat \<Rightarrow> bool) \<Rightarrow> nat list \<Rightarrow> nat list \<Rightarrow> bool \<Rightarrow> World \<Rightarrow> nat list \<times> World" where
  "overrideMethods co table overrides canHide w =
     (case overrides of
        [] \<Rightarrow> (table, w)
      | front # _ \<Rightarrow> overrideSlots co (fnName (funcs w front)) overrides canHide 0 table w)"

text \<open>Lines 1026-1045, the body of the loop of \<open>overridePropertyAccessors\<close>.\<close>

definition accessorSlot ::
  "(nat \<Rightarrow> nat \<Rightarrow> bool) \<Rightarrow> string \<Rightarrow> string \<Rightarrow> nat list \<Rightarrow> bool \<Rightarrow> nat \<Rightarrow> nat \<Rightarrow> World \<Rightarrow>
   nat \<times> World" where
  "accessorSlot co name pname accessors canHide i m w =
     (if fnParentProperty (funcs w m) \<noteq> None \<and> fnName (funcs w m) = name \<and>
         fnParentProperty (funcs w m) = Some pname then
        (case findOverride co m accessors of
           Some newAccessor \<Rightarrow>
             let w1 = (if canHide \<and> dispatchIndex (funcs w newAccessor) < 0
                       then setDispatchIndex newAccessor (int i) w else w)
             in (newAccessor, insertOverridden newAccessor m w1)
         | None \<Rightarrow> (m, emit (InvalidAccessorOverride m # map AccessorBy accessors) w))
      else (m, w))"

fun accessorSlots ::
  "(nat \<Rightarrow> nat \<Rightarrow> bool) \<Rightarrow> string \<Rightarrow> string \<Rightarrow> nat list \<Rightarrow> bool \<Rightarrow> nat \<Rightarrow> nat list \<Rightarrow> World \<Rightarrow>
   nat list \<times> World" where
  "accessorSlots co name pname accessors canHide i [] w = ([], w)"
| "accessorSlots co name pname accessors canHide i (m # rest) w =
     (case accessorSlot co name pname accessors canHide i m w of
        (m1, w1) \<Rightarrow>
          (case accessorSlots co name pname accessors canHide (Suc i) rest w1 of
             (rest1, w2) \<Rightarrow> (m1 # rest1, w2)))"

text \<open>Lines 1021-1047.\<close>

definition overridePropertyAccessors ::
  "(nat \<Rightarrow> nat \<Rightarrow> bool) \<Rightarrow> nat list \<Rightarrow> PropertyDefn \<Rightarrow> nat list \<Rightarrow> bool \<Rightarrow> World \<Rightarrow>
   nat list \<times> World" where
  "overridePropertyAccessors co table prop accessors canHide w =
     (case accessors of
        [] \<Rightarrow> (table, w)
      | front # _ \<Rightarrow>
          accessorSlots co (fnName (funcs w front)) (propName prop) accessors canHide 0 table w)"

text \<open>Lines 874-883: the diagnostics, for \<open>i < j\<close> in the order of the two loops.\<close>

fun ensureUniqueSignatures :: "(nat \<Rightarrow> nat \<Rightarrow> bool) \<Rightarrow> nat list \<Rightarrow> Diag list" where
  "ensureUniqueSignatures same [] = []"
| "ensureUniqueSignatures same (m # ms) =
     concat (map (\<lambda>n. if same m n then [SignatureConflict n, SignatureFromHere m] else []) ms) @
     ensureUniqueSignatures same ms"

text \<open>Lines 809-841: the lists \<open>methods\<close>, \<open>getters\<close>, \<open>setters\<close> and the variable \<open>prop\<close>
  collected from one entry of the symbol table.\<close>

record Collected =
  methods :: "nat list"
  getters :: "nat list"
  setters :: "nat list"
  lastProp :: "PropertyDefn option"

fun collect :: "(nat \<Rightarrow> FunctionDefn) \<Rightarrow> Defn list \<Rightarrow> Collected \<Rightarrow> Collected" where
  "collect fs [] c = c"
| "collect fs (FunctionMember func # rest) c =
     collect fs rest
       (if fnSingular (fs func) \<and> fnStorage (fs func) = Storage_Instance \<and> \<not> fnCtor (fs func)
        then c\<lparr>methods := methods c @ [func]\<rparr> else c)"
| "collect fs (PropertyMember p # rest) c =
     collect fs rest
       (if propStorage p = Storage_Instance \<and> propSingular p then
          c\<lparr>getters := getters c @ (case getter p of None \<Rightarrow> [] | Some g \<Rightarrow> [g]),
            setters := setters c @ (case setter p of None \<Rightarrow> [] | Some g \<Rightarrow> [g]),
            lastProp := Some p\<rparr>
        else c\<lparr>lastProp := Some p\<rparr>)"
| "collect fs (OtherMember sc sg # rest) c = collect fs rest c"

text \<open>The loops \<open>for (it = ifaceList.begin(); ...)\<close> of lines 851-853, 859-861 and 867-869:
  one table transformer applied to the method list of every interface table in turn.\<close>

fun overTables ::
  "(nat list \<Rightarrow> World \<Rightarrow> nat list \<times> World) \<Rightarrow> (nat \<times> nat list) list \<Rightarrow> World \<Rightarrow>
   (nat \<times> nat list) list \<times> World" where
  "overTables f [] w = ([], w)"
| "overTables f ((itype, table) # rest) w =
     (case f table w of
        (table1, w1) \<Rightarrow>
          (case overTables f rest w1 of (rest1, w2) \<Rightarrow> ((itype, table1) # rest1, w2)))"

text \<open>One of the three blocks of lines 845-870: the transformer \<open>f\<close> (with its \<open>canHide\<close>
  argument still open) applied to the instance method table and then to every interface
  table of the target.\<close>

definition overrideAll ::
  "nat \<Rightarrow> (bool \<Rightarrow> nat list \<Rightarrow> World \<Rightarrow> nat list \<times> World) \<Rightarrow> World \<Rightarrow> World" where
  "overrideAll t f w =
     (case f True (instanceMethods (types w t)) w of
        (table1, w1) \<Rightarrow>
          (case overTables (f False) (interfaces (types w1 t)) (setInstanceMethods t table1 w1) of
             (its1, w2) \<Rightarrow> setInterfaces t its1 w2))"

text \<open>Lines 808-870, the body of the loop of \<open>overrideMembers\<close> for one symbol table entry.\<close>

definition overrideEntry :: "OverloadTarget \<Rightarrow> Defn list \<Rightarrow> World \<Rightarrow> World" where
  "overrideEntry tg entry w =
     (let c = collect (funcs w) entry \<lparr>methods = [], getters = [], setters = [], lastProp = None\<rparr>;
          co = canOverride tg;
          w1 = (if methods c \<noteq> [] then
                  overrideAll (target tg) (\<lambda>canHide table. overrideMethods co table (methods c) canHide)
                    (emit (ensureUniqueSignatures (hasSameSignature tg) (methods c)) w)
                else w);
          w2 = (case lastProp c of
                  None \<Rightarrow> w1
                | Some p \<Rightarrow>
                    if getters c \<noteq> [] then
                      overrideAll (target tg)
                        (\<lambda>canHide table. overridePropertyAccessors co table p (getters c) canHide)
                        (emit (ensureUniqueSignatures (hasSameSignature tg) (getters c)) w1)
                    else w1)
      in case lastProp c of
           None \<Rightarrow> w2
         | Some p \<Rightarrow>
             if setters c \<noteq> [] then
               overrideAll (target tg)
                 (\<lambda>canHide table. overridePropertyAccessors co table p (setters c) canHide)
                 (emit (ensureUniqueSignatures (hasSameSignature tg) (setters c)) w2)
             else w2)"

text \<open>Lines 800-872.\<close>

definition overrideMembers :: "OverloadTarget \<Rightarrow> World \<Rightarrow> World" where
  "overrideMembers tg w = foldl (\<lambda>w1 s. overrideEntry tg (snd s) w1) w (symbols tg)"

text \<open>Lines 905-906 (and 912-913, 918-919): give the function the next free slot.\<close>

definition appendMethod :: "nat \<Rightarrow> nat \<Rightarrow> World \<Rightarrow> World" where
  "appendMethod t fn w =
     setInstanceMethods t (instanceMethods (types w t) @ [fn])
       (setDispatchIndex fn (int (length (instanceMethods (types w t)))) w)"

text \<open>Lines 910-920, for a getter or a setter.\<close>

definition addAccessor :: "nat \<Rightarrow> nat option \<Rightarrow> World \<Rightarrow> World" where
  "addAccessor t acc w =
     (case acc of
        None \<Rightarrow> w
      | Some a \<Rightarrow>
          if \<not> fnFinal (funcs w a) \<and> dispatchIndex (funcs w a) < 0 then appendMethod t a w
          else w)"

text \<open>Lines 890-923, the loop of \<open>addNewMethods\<close> over the members in scope order.\<close>

fun addNewMethodsLoop :: "nat \<Rightarrow> Defn list \<Rightarrow> World \<Rightarrow> World" where
  "addNewMethodsLoop t [] w = w"
| "addNewMethodsLoop t (FunctionMember fn # rest) w =
     addNewMethodsLoop t rest
       (if fnStorage (funcs w fn) = Storage_Instance \<and> fnSingular (funcs w fn) then
          let w1 = (if fnUndefined (funcs w fn) \<and> overriddenMethods (funcs w fn) = {} \<and>
                       (\<not> fnCtor (funcs w fn) \<or> \<not> fnNoParams (funcs w fn))
                    then emit [UndefNotOverride fn] w else w)
          in if \<not> fnCtor (funcs w1 fn) \<and> \<not> fnFinal (funcs w1 fn) \<and>
                dispatchIndex (funcs w1 fn) < 0
             then appendMethod t fn w1 else w1
        else w)"
| "addNewMethodsLoop t (PropertyMember p # rest) w =
     addNewMethodsLoop t rest
       (if propStorage p = Storage_Instance \<and> propSingular p
        then addAccessor t (setter p) (addAccessor t (getter p) w) else w)"
| "addNewMethodsLoop t (OtherMember sc sg # rest) w = addNewMethodsLoop t rest w"

definition addNewMethods :: "OverloadTarget \<Rightarrow> World \<Rightarrow> World" where
  "addNewMethods tg w = addNewMethodsLoop (target tg) (scopeMembers tg) w"

text \<open>Lines 942 and 966: a method with no body and no marker.\<close>

definition unimplemented :: "FunctionDefn \<Rightarrow> bool" where
  "unimplemented func \<longleftrightarrow>
     \<not> fnHasBody func \<and> \<not> fnExtern func \<and> \<not> fnIntrinsic func \<and> \<not> fnUndefined func"

text \<open>Lines 961-982, the loop over the interface tables: the diagnostics it emits.\<close>

fun checkInterfaces :: "(nat \<Rightarrow> FunctionDefn) \<Rightarrow> (nat \<times> nat list) list \<Rightarrow> Diag list" where
  "checkInterfaces fs [] = []"
| "checkInterfaces fs ((itype, table) # rest) =
     (let unimpMethods = filter (\<lambda>f. unimplemented (fs f)) table in
      if unimpMethods \<noteq> [] then UnimplementedInterface itype # map UnimplementedInfo unimpMethods
      else checkInterfaces fs rest)"

text \<open>Lines 926-983: the diagnostics that \<open>checkForRequiredMethods\<close> emits.\<close>

definition checkForRequiredMethods :: "OverloadTarget \<Rightarrow> World \<Rightarrow> Diag list" where
  "checkForRequiredMethods tg w =
     (if targetAbstract tg then []
      else
        let type = types w (target tg);
            tcls = typeClass type;
            abstractMethods = filter (\<lambda>f. unimplemented (funcs w f)) (instanceMethods type)
        in
        if instanceMethods type \<noteq> [] \<and> abstractMethods \<noteq> [] then
          (if tcls = Type_Struct \<or> (tcls = Type_Class \<and> \<not> targetAbstract tg)
           then LacksDefinition # map LacksInfo abstractMethods else [])
        else checkInterfaces (funcs w) (interfaces type))"

text \<open>Lines 724-728, between \<open>begin\<close> and \<open>finish\<close> of the overloading pass, after the bases
  have been brought to the evaluation stage.\<close>

definition analyzeOverloadingBody :: "OverloadTarget \<Rightarrow> World \<Rightarrow> Abort + World" where
  "analyzeOverloadingBody tg w =
     (case copyBaseClassMethods tg w of
        Inl a \<Rightarrow> Inl a
      | Inr w1 \<Rightarrow>
          (case createInterfaceTables tg w1 of
             Inl a \<Rightarrow> Inl a
           | Inr w2 \<Rightarrow>
               (let w3 = addNewMethods tg (overrideMembers tg w2)
                in Inr (emit (checkForRequiredMethods tg w3) w3))))"

text \<open>Is a diagnostic the error that an interface is not implemented?\<close>

fun isUnimplementedInterface :: "Diag \<Rightarrow> bool" where
  "isUnimplementedInterface (UnimplementedInterface i) = True"
| "isUnimplementedInterface d = False"


section \<open>Proof devices for the pass runner\<close>

text \<open>An analyzer that, started with no pass running and returning true, leaves no pass
  running and has finished exactly its own pass.\<close>

definition stepOK :: "Pass \<Rightarrow> analyzer \<Rightarrow> bool" where
  "stepOK p f \<longleftrightarrow> (\<forall>st st'. running st = {} \<longrightarrow> f st = (True, st') \<longrightarrow>
      running st' = {} \<and> finished st' = insert p (finished st))"

definition plainSteps :: "Target \<Rightarrow> (Pass \<times> analyzer) list" where
  "plainSteps tg =
     [(ScopeCreationPass, scopeCreation tg),
      (AttributePass, attributePass tg),
      (NamingConflictPass, checkNameConflicts tg),
      (BaseTypesPass, analyzeBaseClasses tg),
      (MemberTypePass, analyzeMemberTypes),
      (FieldPass, analyzeFields),
      (ConverterPass, analyzeConverters),
      (ConstructorPass, analyzeConstructors tg),
      (MethodPass, analyzeMethods),
      (OverloadingPass, analyzeOverloading),
      (FieldTypePass, analyzeFieldTypes),
      (CompletionPass, analyzeCompletely)]"

section \<open>Examples and proof devices for the overloading pass\<close>

definition absMethod :: FunctionDefn where
  "absMethod =
     \<lparr>fnName = ''m'', fnParentProperty = None, fnStorage = Storage_Instance, fnSingular = True,
      fnCtor = False, fnFinal = False, fnUndefined = False, fnOverride = False,
      fnHasBody = False, fnExtern = False, fnIntrinsic = False, fnNoParams = True,
      dispatchIndex = 0, overriddenMethods = {}\<rparr>"

text \<open>The attributes of a function that the overloading pass never writes: everything but
  the dispatch index and the set of overridden methods.\<close>

definition static :: "FunctionDefn \<Rightarrow> FunctionDefn" where
  "static f = f\<lparr>dispatchIndex := 0, overriddenMethods := {}\<rparr>"

text \<open>From one state of the pass to a later one: the written attributes aside, no function
  changes, and no set of overridden methods loses an element.\<close>

definition grows :: "(nat \<Rightarrow> FunctionDefn) \<Rightarrow> (nat \<Rightarrow> FunctionDefn) \<Rightarrow> bool" where
  "grows fs fs' \<longleftrightarrow>
     (\<forall>f. static (fs' f) = static (fs f)) \<and>
     (\<forall>f. overriddenMethods (fs f) \<subseteq> overriddenMethods (fs' f))"

text \<open>
  One override step: the list handed to \<open>overrideMethods\<close> or \<open>overridePropertyAccessors\<close>
  (the methods, getters or setters of one symbol table entry) and, for accessors, the name
  of the property. \<open>stepMatch\<close> is the test of line 996 (line 1027-1028 for accessors) that
  selects the slots the step looks at.
\<close>

record OverrideStep =
  stepNew :: "nat list"
  stepProperty :: "string option"

definition stepMatch :: "(nat \<Rightarrow> FunctionDefn) \<Rightarrow> OverrideStep \<Rightarrow> nat \<Rightarrow> bool" where
  "stepMatch fs s m \<longleftrightarrow>
     stepNew s \<noteq> [] \<and> fnName (fs m) = fnName (fs (hd (stepNew s))) \<and>
     (case stepProperty s of None \<Rightarrow> True | Some pn \<Rightarrow> fnParentProperty (fs m) = Some pn)"

text \<open>What a step may do to a slot with occupant \<open>m\<close>: leave it, or put there one of its
  own functions, which then has \<open>m\<close> among its overridden methods.\<close>

definition replacedBy ::
  "(nat \<Rightarrow> FunctionDefn) \<Rightarrow> (nat \<Rightarrow> FunctionDefn) \<Rightarrow> OverrideStep \<Rightarrow> nat \<Rightarrow> nat \<Rightarrow> bool" where
  "replacedBy fs fs' s m m' \<longleftrightarrow>
     m' = m \<or> (stepMatch fs s m \<and> m' \<in> set (stepNew s) \<and> m \<in> overriddenMethods (fs' m'))"

text \<open>A table transformer (with its \<open>canHide\<close> argument) that behaves as the step \<open>s\<close>.\<close>

definition tableSpec ::
  "(bool \<Rightarrow> nat list \<Rightarrow> World \<Rightarrow> nat list \<times> World) \<Rightarrow> OverrideStep \<Rightarrow> bool" where
  "tableSpec f s \<longleftrightarrow>
     (\<forall>canHide T w T' w'. f canHide T w = (T', w') \<longrightarrow>
        grows (funcs w) (funcs w') \<and> types w' = types w \<and>
        list_all2 (replacedBy (funcs w) (funcs w') s) T T')"


section \<open>Diagnostics of the base-class loop, base by base\<close>

text \<open>
  The diagnostics that the loop emits for the base at position \<open>i\<close> of a struct or an
  interface, when \<open>had\<close> tells whether a primary base was selected before the loop: the
  finality error of line 321, then the error for a base of the wrong kind (lines 347
  and 358) or, for a struct, the error of line 352 when an eligible base came earlier.
\<close>

definition baseDiagsAt :: "BaseTarget \<Rightarrow> bool \<Rightarrow> BaseRef list \<Rightarrow> nat \<Rightarrow> Diag list" where
  "baseDiagsAt tg had bs i =
     (if baseIsFinal (bs ! i) then [BaseTypeIsFinal] else []) @
     (if \<not> eligible tg (bs ! i)
      then [if targetKind tg = Type_Struct then StructBaseKind else InterfaceBaseKind]
      else if (had \<or> list_ex (eligible tg) (take i bs)) \<and> targetKind tg = Type_Struct
      then [StructSingleSupertype] else [])"

section \<open>Examples and proof devices for the field pass\<close>

text \<open>An analyzer that finishes no pass but its own.\<close>

definition addsOnly :: "Pass \<Rightarrow> analyzer \<Rightarrow> bool" where
  "addsOnly p f \<longleftrightarrow> (\<forall>st. finished (snd (f st)) \<subseteq> insert p (finished st))"



section \<open>Statement devices for the override substep\<close>








section \<open>Properties of the pass runner\<close>

lemma stepOK_simplePass: "stepOK p (simplePass p q)"
  by (auto simp: stepOK_def simplePass_def beginPass_def finishPass_def split: if_splits)

lemma stepOK_scopeCreation: "stepOK ScopeCreationPass (scopeCreation tg)"
  by (auto simp: stepOK_def scopeCreation_def beginPass_def finishPass_def split: if_splits)

lemma stepOK_attributePass: "stepOK AttributePass (attributePass tg)"
  by (auto simp: stepOK_def attributePass_def beginPass_def finishPass_def split: if_splits)

lemma stepOK_checkNameConflicts: "stepOK NamingConflictPass (checkNameConflicts tg)"
  by (auto simp: stepOK_def checkNameConflicts_def beginPass_def finishPass_def Let_def
      split: if_splits)

lemma stepOK_analyzeBaseClasses: "stepOK BaseTypesPass (analyzeBaseClasses tg)"
  by (auto simp: stepOK_def analyzeBaseClasses_def isRunning_def beginPass_def finishPass_def split: if_splits)

lemma stepOK_analyzeConstructors: "stepOK ConstructorPass (analyzeConstructors tg)"
  by (auto simp: stepOK_def analyzeConstructors_def beginPass_def finishPass_def split: if_splits)

lemma stepOKD:
  "stepOK p f \<Longrightarrow> running st = {} \<Longrightarrow> f st = (True, st') \<Longrightarrow>
     running st' = {} \<and> finished st' = insert p (finished st)"
  unfolding stepOK_def by (drule spec[of _ st], drule spec[of _ st']) simp

lemma runSteps_Cons_True:
  "runSteps (f # fs) st = (True, st') \<Longrightarrow>
     \<exists>st1. f st = (True, st1) \<and> runSteps fs st1 = (True, st')"
  by (cases "f st") (simp split: bool.splits)

lemma whenContains_finished:
  assumes "stepOK p f" "running st = {}" "whenContains S p f st = (True, st1)"
  shows "running st1 = {} \<and> finished st1 = finished st \<union> ({p} \<inter> S)"
proof (cases "p \<in> S")
  case True
  with assms(3) have "f st = (True, st1)" by (simp add: whenContains_def)
  from stepOKD[OF assms(1,2) this] True show ?thesis by simp
next
  case False
  with assms(3) have "st1 = st" by (simp add: whenContains_def)
  with False assms(2) show ?thesis by simp
qed

lemma runSteps_finished:
  assumes "\<forall>pf \<in> set pfs. stepOK (fst pf) (snd pf)"
    and "running st = {}"
    and "runSteps (map (\<lambda>pf. whenContains S (fst pf) (snd pf)) pfs) st = (True, st')"
  shows "running st' = {} \<and> finished st' = finished st \<union> (fst ` set pfs \<inter> S)"
  using assms
proof (induction pfs arbitrary: st)
  case Nil
  then show ?case by simp
next
  case (Cons pf pfs)
  from Cons.prems(3) obtain st1 where
    r: "whenContains S (fst pf) (snd pf) st = (True, st1)" and
    rest: "runSteps (map (\<lambda>pf. whenContains S (fst pf) (snd pf)) pfs) st1 = (True, st')"
    using runSteps_Cons_True[of "whenContains S (fst pf) (snd pf)"] by fastforce
  from Cons.prems(1) have ok: "stepOK (fst pf) (snd pf)" by simp
  from whenContains_finished[OF ok Cons.prems(2) r]
  have st1: "running st1 = {}" "finished st1 = finished st \<union> ({fst pf} \<inter> S)" by simp_all
  from Cons.prems(1) have "\<forall>pf \<in> set pfs. stepOK (fst pf) (snd pf)" by simp
  from Cons.IH[OF this st1(1) rest]
  have "running st' = {}" "finished st' = finished st1 \<union> (fst ` set pfs \<inter> S)" by simp_all
  with st1(2) show ?case by auto
qed

lemma Pass_UNIV: "(UNIV :: Pass set) = {ScopeCreationPass, BaseTypesPass, AttributePass, NamingConflictPass, ConverterPass,
      ConstructorPass, MemberTypePass, FieldPass, FieldTypePass, MethodPass, OverloadingPass,
      CompletionPass}"
proof -
  have "x \<in> {ScopeCreationPass, BaseTypesPass, AttributePass, NamingConflictPass, ConverterPass,
      ConstructorPass, MemberTypePass, FieldPass, FieldTypePass, MethodPass, OverloadingPass,
      CompletionPass}" for x by (cases x) simp_all
  then show ?thesis by blast
qed

lemma plainSteps_ok: "\<forall>pf \<in> set (plainSteps tg). stepOK (fst pf) (snd pf)"
  by (simp add: plainSteps_def stepOK_simplePass stepOK_scopeCreation stepOK_attributePass
      stepOK_checkNameConflicts stepOK_analyzeBaseClasses stepOK_analyzeConstructors
      analyzeMemberTypes_def analyzeFields_def analyzeConverters_def analyzeMethods_def
      analyzeOverloading_def analyzeFieldTypes_def analyzeCompletely_def)

lemma plainSteps_passes: "fst ` set (plainSteps tg) = UNIV"
proof -
  have "x \<in> fst ` set (plainSteps tg)" for x
    by (cases x) (simp_all add: plainSteps_def)
  then show ?thesis by blast
qed

lemma runPasses_plain:
  "\<not> isTemplate tg \<Longrightarrow> \<not> isTemplateMember tg \<Longrightarrow> passSet - finished st \<noteq> {} \<Longrightarrow>
   runPasses tg passSet st =
     runSteps (map (\<lambda>pf. whenContains (passSet - finished st) (fst pf) (snd pf)) (plainSteps tg)) st"
  by (simp add: runPasses_def plainSteps_def Let_def del: runSteps.simps)

lemma runPasses_finished:
  assumes "\<not> isTemplate tg" "\<not> isTemplateMember tg" "running st = {}"
    and "runPasses tg passSet st = (True, st')"
  shows "running st' = {} \<and> finished st' = finished st \<union> passSet"
proof (cases "passSet - finished st = {}")
  case True
  with assms(4) have "st' = st" by (simp add: runPasses_def)
  with True assms(3) show ?thesis by auto
next
  case False
  with assms have "runSteps (map (\<lambda>pf. whenContains (passSet - finished st) (fst pf) (snd pf)) (plainSteps tg)) st = (True, st')"
    by (simp add: runPasses_plain)
  from runSteps_finished[OF plainSteps_ok assms(3) this]
  show ?thesis by (auto simp: plainSteps_passes)
qed

lemma analyze_finished:
  assumes "\<not> isTemplate tg" "\<not> isTemplateMember tg" "running st = {}"
    and "analyze tg t st = (True, st')"
  shows "running st' = {} \<and> finished st' = finished st \<union> passSetOf t"
proof (cases t)
  case Task_Other
  with assms show ?thesis by auto
qed (use assms in \<open>simp_all add: runPasses_finished\<close>)

lemma analyzeSeq_finished:
  assumes "\<not> isTemplate tg" "\<not> isTemplateMember tg"
  shows "running st = {} \<Longrightarrow> allSucceed tg ts st \<Longrightarrow>
     running (analyzeSeq tg ts st) = {} \<and>
     finished (analyzeSeq tg ts st) = finished st \<union> (\<Union>t \<in> set ts. passSetOf t)"
proof (induction ts arbitrary: st)
  case Nil
  then show ?case by simp
next
  case (Cons t ts)
  obtain st1 where a: "analyze tg t st = (True, st1)"
    using Cons.prems(2) by (cases "analyze tg t st") auto
  from analyze_finished[OF assms Cons.prems(1) a]
  have s1: "running st1 = {}" "finished st1 = finished st \<union> passSetOf t" by simp_all
  from Cons.prems(2) a have "allSucceed tg ts st1" by simp
  from Cons.IH[OF s1(1) this] s1(2) a show ?case by auto
qed

lemma plainTarget_sel:
  "\<not> isTemplate plainTarget" "\<not> isTemplateMember plainTarget"
  "createMembersFromAST plainTarget" "resolveAttributes plainTarget"
  "memberKinds plainTarget = []" "baseClassesImplOk plainTarget" "superConstructionOk plainTarget"
  by (simp_all add: plainTarget_def)

lemmas pass_defs =
  beginPass_def finishPass_def isRunning_def simplePass_def scopeCreation_def attributePass_def
  checkNameConflicts_def analyzeBaseClasses_def analyzeConstructors_def analyzeMemberTypes_def
  analyzeFields_def analyzeConverters_def analyzeMethods_def analyzeOverloading_def
  analyzeFieldTypes_def analyzeCompletely_def whenContains_def

lemma analyze_PrepConstruction_fresh:
  "analyze plainTarget Task_PrepConstruction freshType =
     (True, \<lparr>running = {}, finished = PASS_SET_CONSTRUCTION, diags = []\<rparr>)"
  by (simp add: runPasses_def PASS_SET_CONSTRUCTION_def freshType_def plainTarget_sel pass_defs
      insert_commute)

lemma analyze_PrepCodeGeneration_fresh:
  "analyze plainTarget Task_PrepCodeGeneration freshType =
     (True, \<lparr>running = {}, finished = PASS_SET_CODEGEN, diags = []\<rparr>)"
  by (simp add: runPasses_def PASS_SET_CODEGEN_def freshType_def plainTarget_sel pass_defs
      insert_commute)

text \<open>
  Claim C3, as stated, says that a finished pass implies that every pass before it in the
  topological order is finished. It fails on an ordinary class after the single call
  \<open>analyze(Task_PrepConstruction)\<close>: \<open>PASS_SET_CONSTRUCTION\<close> holds \<open>ConstructorPass\<close>
  but not \<open>ConverterPass\<close>, which precedes it in the order.
\<close>

theorem pass_order_counterexample:
  "allSucceed plainTarget [Task_PrepConstruction] freshType \<and>
   ConstructorPass \<in> finished (analyzeSeq plainTarget [Task_PrepConstruction] freshType) \<and>
   precedes ConverterPass ConstructorPass \<and>
   ConverterPass \<notin> finished (analyzeSeq plainTarget [Task_PrepConstruction] freshType)"
  unfolding analyzeSeq.simps allSucceed.simps analyze_PrepConstruction_fresh
  by (simp add: PASS_SET_CONSTRUCTION_def precedes_def passOrder_def)

text \<open>
  Claim C3 (amended). For a composite type that is neither a template nor a template member
  and starts with no pass begun, after any sequence of \<open>analyze(task)\<close> calls that all
  return true, the finished passes are exactly the union of the pass sets of the requested
  tasks. Hence a finished pass \<open>p\<close> implies that \<open>q\<close> is finished for every \<open>q\<close> that
  belongs to every task pass set containing \<open>p\<close>; the pass sets are not closed under the
  topological order, so nothing more is implied about the passes preceding \<open>p\<close>.
\<close>

theorem finished_is_union_of_task_sets:
  assumes "\<not> isTemplate tg" and "\<not> isTemplateMember tg"
    and "allSucceed tg ts freshType"
  shows "finished (analyzeSeq tg ts freshType) = (\<Union>t \<in> set ts. passSetOf t) \<and>
         (\<forall>p q. p \<in> finished (analyzeSeq tg ts freshType) \<longrightarrow>
                (\<forall>t. p \<in> passSetOf t \<longrightarrow> q \<in> passSetOf t) \<longrightarrow>
                q \<in> finished (analyzeSeq tg ts freshType))"
proof -
  have "running freshType = {}" by (simp add: freshType_def)
  from analyzeSeq_finished[OF assms(1,2) this assms(3)]
  have eq: "finished (analyzeSeq tg ts freshType) = (\<Union>t \<in> set ts. passSetOf t)"
    by (simp add: freshType_def)
  then show ?thesis by blast
qed

theorem finished_is_union_of_task_sets_witness:
  "finished (analyzeSeq plainTarget [Task_PrepTypeGeneration, Task_PrepConversion] freshType) =
     {ScopeCreationPass, BaseTypesPass, AttributePass, NamingConflictPass, ConverterPass,
      FieldPass, FieldTypePass}"
proof -
  have a: "allSucceed plainTarget [Task_PrepTypeGeneration, Task_PrepConversion] freshType"
    by (simp add: runPasses_def PASS_SET_TYPEGEN_def PASS_SET_CONVERSION_def freshType_def
        plainTarget_sel pass_defs insert_commute)
  from finished_is_union_of_task_sets[OF plainTarget_sel(1,2) a]
  show ?thesis by (auto simp: PASS_SET_TYPEGEN_def PASS_SET_CONVERSION_def)
qed

text \<open>
  Claim C4, as stated, says that a successful \<open>analyze(Task_PrepCodeGeneration)\<close> leaves all
  twelve passes finished, \<open>FieldTypePass\<close> included. On a fresh ordinary class the call
  succeeds and \<open>FieldTypePass\<close> is not finished: \<open>PASS_SET_CODEGEN\<close> does not contain it.
\<close>

theorem codegen_counterexample:
  "fst (analyze plainTarget Task_PrepCodeGeneration freshType) \<and>
   FieldTypePass \<notin> finished (snd (analyze plainTarget Task_PrepCodeGeneration freshType))"
  unfolding analyze_PrepCodeGeneration_fresh by (simp add: PASS_SET_CODEGEN_def)

text \<open>
  Claim C4 (amended). For a composite type that is neither a template nor a template member
  and has no pass running, a successful \<open>analyze(Task_PrepCodeGeneration)\<close> adds to the
  finished passes every pass of the enumeration except \<open>FieldTypePass\<close> (eleven of the
  twelve); \<open>FieldTypePass\<close> is finished afterwards exactly when it was finished before.
\<close>

theorem codegen_finishes_all_but_FieldType:
  assumes "\<not> isTemplate tg" and "\<not> isTemplateMember tg" and "running st = {}"
    and "analyze tg Task_PrepCodeGeneration st = (True, st')"
  shows "finished st' = finished st \<union> (UNIV - {FieldTypePass}) \<and>
         (FieldTypePass \<in> finished st' \<longleftrightarrow> FieldTypePass \<in> finished st)"
proof -
  have "PASS_SET_CODEGEN = UNIV - {FieldTypePass}"
    by (auto simp: PASS_SET_CODEGEN_def Pass_UNIV)
  with analyze_finished[OF assms] show ?thesis by auto
qed

theorem codegen_finishes_all_but_FieldType_witness:
  "finished (snd (analyze plainTarget Task_PrepCodeGeneration freshType)) = UNIV - {FieldTypePass}"
proof -
  have r: "running freshType = {}" by (simp add: freshType_def)
  have a: "analyze plainTarget Task_PrepCodeGeneration freshType =
     (True, snd (analyze plainTarget Task_PrepCodeGeneration freshType))"
    unfolding analyze_PrepCodeGeneration_fresh by simp
  from codegen_finishes_all_but_FieldType[OF plainTarget_sel(1,2) r a]
  show ?thesis by (simp add: freshType_def)
qed

text \<open>
  Claim C9. If the BaseTypes pass is requested on a composite type while that pass is
  running on it, \<open>analyzeBaseClasses\<close> emits the circular-inheritance diagnostic and
  returns false; the pass registry is left as it was and \<open>analyzeBaseClassesImpl\<close> is not
  entered (its outcome does not matter). The recursive request of line 325,
  \<open>analyze(Task_PrepMemberLookup)\<close> on a type whose BaseTypes pass is running and not
  finished, therefore fails with that diagnostic, for a template and for an ordinary type
  whose scope and attribute passes are finished.
\<close>

theorem circular_inheritance_detected:
  assumes "isRunning BaseTypesPass st"
  shows "analyzeBaseClasses tg st = (False, st\<lparr>diags := diags st @ [CircularInheritance]\<rparr>) \<and>
         (\<not> isFinished BaseTypesPass st \<and>
          (isTemplate tg \<or> (\<not> isTemplateMember tg \<and> isFinished ScopeCreationPass st \<and>
             isFinished AttributePass st)) \<longrightarrow>
          analyze tg Task_PrepMemberLookup st =
            (False, st\<lparr>diags := diags st @ [CircularInheritance]\<rparr>))"
proof -
  have a: "analyzeBaseClasses tg st = (False, st\<lparr>diags := diags st @ [CircularInheritance]\<rparr>)"
    using assms by (simp add: analyzeBaseClasses_def)
  have b: "analyze tg Task_PrepMemberLookup st =
            (False, st\<lparr>diags := diags st @ [CircularInheritance]\<rparr>)"
    if nf: "BaseTypesPass \<notin> finished st"
      and c: "isTemplate tg \<or> (\<not> isTemplateMember tg \<and> ScopeCreationPass \<in> finished st \<and>
             AttributePass \<in> finished st)"
  proof -
    from nf have ne: "PASS_SET_LOOKUP - finished st \<noteq> {}"
      and m: "BaseTypesPass \<in> PASS_SET_LOOKUP - finished st"
      by (auto simp: PASS_SET_LOOKUP_def)
    show ?thesis
    proof (cases "isTemplate tg")
      case True
      with nf a show ?thesis
        by (simp add: runPasses_def whenContains_def PASS_SET_LOOKUP_def Let_def insert_Diff_if)
    next
      case False
      with c have d: "\<not> isTemplateMember tg" "ScopeCreationPass \<in> finished st"
        "AttributePass \<in> finished st" by simp_all
      from False d nf a show ?thesis
        by (simp add: runPasses_def whenContains_def PASS_SET_LOOKUP_def Let_def insert_Diff_if)
    qed
  qed
  from a b show ?thesis by (simp add: isFinished_def)
qed

theorem circular_inheritance_detected_witness:
  "analyze plainTarget Task_PrepMemberLookup
     \<lparr>running = {BaseTypesPass}, finished = {ScopeCreationPass, AttributePass}, diags = []\<rparr> =
   (False, \<lparr>running = {BaseTypesPass}, finished = {ScopeCreationPass, AttributePass},
      diags = [CircularInheritance]\<rparr>)"
proof -
  let ?st = "\<lparr>running = {BaseTypesPass}, finished = {ScopeCreationPass, AttributePass}, diags = []\<rparr>"
  have r: "isRunning BaseTypesPass ?st" by (simp add: isRunning_def)
  from circular_inheritance_detected[OF r, of plainTarget]
  show ?thesis by (simp add: isFinished_def plainTarget_sel)
qed



section \<open>Properties of the constructor pass\<close>






section \<open>Properties of the completeness check\<close>

lemma checkInterfaces_at_most_one:
  "length (filter isUnimplementedInterface (checkInterfaces fs its)) \<le> 1"
proof (induction its)
  case Nil
  then show ?case by simp
next
  case (Cons it its)
  obtain itype table where it: "it = (itype, table)" by (cases it)
  have "filter isUnimplementedInterface (map UnimplementedInfo xs) = []" for xs
    by (induction xs) simp_all
  with Cons it show ?case by (simp add: Let_def)
qed

text \<open>
  Claim C10. For a non-abstract composite type whose instance method table holds at least
  one method with no body and no extern, intrinsic or undef marker, the completeness check
  stops after the instance method table: for a struct or class it emits the one error
  listing those methods, for an interface or protocol it emits nothing, and in either case
  no unimplemented-interface diagnostic. And on every type the check emits at most one
  unimplemented-interface diagnostic, however many interface tables are incomplete.
\<close>

theorem required_methods_check_stops:
  "(\<not> targetAbstract tg \<and>
    (\<exists>f \<in> set (instanceMethods (types w (target tg))). unimplemented (funcs w f)) \<longrightarrow>
      checkForRequiredMethods tg w =
        (if typeClass (types w (target tg)) = Type_Struct \<or>
            typeClass (types w (target tg)) = Type_Class
         then LacksDefinition #
                map LacksInfo
                  (filter (\<lambda>f. unimplemented (funcs w f)) (instanceMethods (types w (target tg))))
         else []) \<and>
      filter isUnimplementedInterface (checkForRequiredMethods tg w) = []) \<and>
   length (filter isUnimplementedInterface (checkForRequiredMethods tg w)) \<le> 1"
proof -
  have info: "filter isUnimplementedInterface (map LacksInfo xs) = []" for xs
    by (induction xs) simp_all
  have a: "checkForRequiredMethods tg w =
        (if typeClass (types w (target tg)) = Type_Struct \<or>
            typeClass (types w (target tg)) = Type_Class
         then LacksDefinition #
                map LacksInfo
                  (filter (\<lambda>f. unimplemented (funcs w f)) (instanceMethods (types w (target tg))))
         else [])"
    if "\<not> targetAbstract tg"
      and "\<exists>f \<in> set (instanceMethods (types w (target tg))). unimplemented (funcs w f)"
  proof -
    from that(2) have "filter (\<lambda>f. unimplemented (funcs w f)) (instanceMethods (types w (target tg))) \<noteq> []"
      by (simp add: filter_empty_conv)
    moreover from that(2) have "instanceMethods (types w (target tg)) \<noteq> []" by auto
    ultimately show ?thesis using that(1)
      by (simp add: checkForRequiredMethods_def Let_def)
  qed
  have b: "length (filter isUnimplementedInterface (checkForRequiredMethods tg w)) \<le> 1"
    using checkInterfaces_at_most_one[of "funcs w" "interfaces (types w (target tg))"]
    by (simp add: checkForRequiredMethods_def Let_def info)
  from a b show ?thesis by (simp add: info)
qed

theorem required_methods_check_stops_witness:
  "checkForRequiredMethods
     \<lparr>target = 0, targetAbstract = False, scopeMembers = [], symbols = [], ancestors = [],
      findBaseImplementationOf = (\<lambda>i. None), canOverride = (\<lambda>n m. False),
      hasSameSignature = (\<lambda>n m. False)\<rparr>
     \<lparr>types = (\<lambda>t. \<lparr>typeClass = Type_Class, typeSingular = True, typeSuper = None,
                      typeBases = [], instanceMethods = [5], interfaces = [(1, [5]), (2, [5])]\<rparr>),
      funcs = (\<lambda>f. absMethod), messages = []\<rparr> =
   [LacksDefinition, LacksInfo 5]"
proof -
  let ?tg = "\<lparr>target = 0, targetAbstract = False, scopeMembers = [], symbols = [], ancestors = [],
      findBaseImplementationOf = (\<lambda>i. None), canOverride = (\<lambda>n m. False),
      hasSameSignature = (\<lambda>n m. False)\<rparr>"
  let ?w = "\<lparr>types = (\<lambda>t. \<lparr>typeClass = Type_Class, typeSingular = True, typeSuper = None,
                      typeBases = [], instanceMethods = [5], interfaces = [(1, [5]), (2, [5])]\<rparr>),
      funcs = (\<lambda>f. absMethod), messages = []\<rparr>"
  have u: "unimplemented absMethod" by (simp add: unimplemented_def absMethod_def)
  from required_methods_check_stops[of ?tg ?w] u show ?thesis by simp
qed

section \<open>Properties of the overloading pass\<close>

lemma static_eqD:
  assumes "static a = static b"
  shows "fnName a = fnName b" "fnParentProperty a = fnParentProperty b"
    "fnStorage a = fnStorage b" "fnSingular a = fnSingular b" "fnCtor a = fnCtor b"
    "fnFinal a = fnFinal b" "fnHasBody a = fnHasBody b" "fnOverride a = fnOverride b"
proof -
  have "fnName (static a) = fnName (static b)" "fnParentProperty (static a) = fnParentProperty (static b)"
    "fnStorage (static a) = fnStorage (static b)" "fnSingular (static a) = fnSingular (static b)"
    "fnCtor (static a) = fnCtor (static b)" "fnFinal (static a) = fnFinal (static b)"
    "fnHasBody (static a) = fnHasBody (static b)" "fnOverride (static a) = fnOverride (static b)"
    using assms by simp_all
  then show "fnName a = fnName b" "fnParentProperty a = fnParentProperty b"
    "fnStorage a = fnStorage b" "fnSingular a = fnSingular b" "fnCtor a = fnCtor b"
    "fnFinal a = fnFinal b" "fnHasBody a = fnHasBody b" "fnOverride a = fnOverride b"
    by (simp_all add: static_def)
qed

lemma grows_refl: "grows fs fs"
  by (simp add: grows_def)

lemma grows_trans: "grows a b \<Longrightarrow> grows b c \<Longrightarrow> grows a c"
  unfolding grows_def by (metis subset_trans)

lemma grows_static: "grows fs fs' \<Longrightarrow> static (fs' f) = static (fs f)"
  by (simp add: grows_def)

lemma grows_fnName: "grows fs fs' \<Longrightarrow> fnName (fs' f) = fnName (fs f)"
  by (rule static_eqD(1)) (rule grows_static)

lemma grows_fnParentProperty: "grows fs fs' \<Longrightarrow> fnParentProperty (fs' f) = fnParentProperty (fs f)"
  by (rule static_eqD(2)) (rule grows_static)

lemma grows_overridden: "grows fs fs' \<Longrightarrow> m \<in> overriddenMethods (fs f) \<Longrightarrow> m \<in> overriddenMethods (fs' f)"
  unfolding grows_def by blast

lemma grows_stepMatch: "grows fs fs' \<Longrightarrow> stepMatch fs' s m = stepMatch fs s m"
  by (simp add: stepMatch_def grows_fnName grows_fnParentProperty split: option.splits)

lemma funcs_emit [simp]: "funcs (emit ds w) = funcs w" "types (emit ds w) = types w"
  "messages (emit ds w) = messages w @ ds"
  by (simp_all add: emit_def)

lemma grows_setDispatchIndex: "grows (funcs w) (funcs (setDispatchIndex f i w))"
  by (simp add: grows_def setDispatchIndex_def static_def)

lemma grows_insertOverridden: "grows (funcs w) (funcs (insertOverridden f m w))"
  by (auto simp: grows_def insertOverridden_def static_def)

lemma types_setDispatchIndex [simp]: "types (setDispatchIndex f i w) = types w"
  "messages (setDispatchIndex f i w) = messages w"
  by (simp_all add: setDispatchIndex_def)

lemma types_insertOverridden [simp]: "types (insertOverridden f m w) = types w"
  "messages (insertOverridden f m w) = messages w"
  by (simp_all add: insertOverridden_def)

lemma overridden_insertOverridden: "m \<in> overriddenMethods (funcs (insertOverridden f m w) f)"
  by (simp add: insertOverridden_def)

lemma findOverride_SomeD: "findOverride co m N = Some n \<Longrightarrow> n \<in> set N \<and> co n m"
  by (auto simp: findOverride_def find_Some_iff)

lemma replacedBy_grows:
  "replacedBy fs fs1 s m m' \<Longrightarrow> grows fs1 fs2 \<Longrightarrow> replacedBy fs fs2 s m m'"
  by (auto simp: replacedBy_def dest: grows_overridden)

lemma replacedBy_pre:
  "replacedBy fs1 fs2 s m m' \<Longrightarrow> grows fs fs1 \<Longrightarrow> replacedBy fs fs2 s m m'"
  by (simp add: replacedBy_def grows_stepMatch)

lemma overrideSlot_spec:
  assumes "overrideSlot co name N canHide i m w = (m', w')"
  shows "grows (funcs w) (funcs w') \<and> types w' = types w \<and>
         (m' = m \<or> (fnName (funcs w m) = name \<and> m' \<in> set N \<and>
                     m \<in> overriddenMethods (funcs w' m')))"
proof (cases "fnName (funcs w m) = name")
  case False
  with assms show ?thesis by (simp add: overrideSlot_def grows_refl)
next
  case True
  show ?thesis
  proof (cases "findOverride co m N")
    case None
    with True assms show ?thesis by (auto simp: overrideSlot_def grows_refl)
  next
    case (Some n)
    define w1 where "w1 = (if canHide \<and> dispatchIndex (funcs w n) < 0
                       then setDispatchIndex n (int i) w else w)"
    define w2 where "w2 = (if fnHasBody (funcs w1 m) \<and> \<not> fnOverride (funcs w1 n)
                       then emit [ShouldDeclareOverride n] w1 else w1)"
    have "overrideSlot co name N canHide i m w = (n, insertOverridden n m w2)"
      unfolding overrideSlot_def Let_def w2_def w1_def using True Some
      by (simp split del: if_split cong: if_cong)
    with assms have r: "m' = n" "w' = insertOverridden n m w2" by auto
    have g1: "grows (funcs w) (funcs w1)" "types w1 = types w"
      by (simp_all add: w1_def grows_refl grows_setDispatchIndex)
    have g2: "grows (funcs w1) (funcs w2)" "types w2 = types w1"
      by (simp_all add: w2_def grows_refl)
    have g3: "grows (funcs w2) (funcs w')" "types w' = types w2"
      by (simp_all add: r grows_insertOverridden)
    from g1 g2 g3 have "grows (funcs w) (funcs w')" "types w' = types w"
      by (auto intro: grows_trans)
    moreover from findOverride_SomeD[OF Some] have "n \<in> set N" by simp
    moreover have "m \<in> overriddenMethods (funcs w' m')"
      by (simp add: r overridden_insertOverridden)
    ultimately show ?thesis using True r by simp
  qed
qed

lemma accessorSlot_spec:
  assumes "accessorSlot co name pname N canHide i m w = (m', w')"
  shows "grows (funcs w) (funcs w') \<and> types w' = types w \<and>
         (m' = m \<or> (fnName (funcs w m) = name \<and> fnParentProperty (funcs w m) = Some pname \<and>
                     m' \<in> set N \<and> m \<in> overriddenMethods (funcs w' m')))"
proof (cases "fnName (funcs w m) = name \<and> fnParentProperty (funcs w m) = Some pname")
  case False
  with assms show ?thesis by (auto simp: accessorSlot_def grows_refl)
next
  case True
  show ?thesis
  proof (cases "findOverride co m N")
    case None
    with True assms show ?thesis by (auto simp: accessorSlot_def grows_refl)
  next
    case (Some n)
    define w1 where "w1 = (if canHide \<and> dispatchIndex (funcs w n) < 0
                       then setDispatchIndex n (int i) w else w)"
    have "accessorSlot co name pname N canHide i m w = (n, insertOverridden n m w1)"
      unfolding accessorSlot_def Let_def w1_def using True Some
      by (simp split del: if_split cong: if_cong)
    with assms have r: "m' = n" "w' = insertOverridden n m w1" by auto
    have g1: "grows (funcs w) (funcs w1)" "types w1 = types w"
      by (simp_all add: w1_def grows_refl grows_setDispatchIndex)
    have g3: "grows (funcs w1) (funcs w')" "types w' = types w1"
      by (simp_all add: r grows_insertOverridden)
    from g1 g3 have "grows (funcs w) (funcs w')" "types w' = types w"
      by (auto intro: grows_trans)
    moreover from findOverride_SomeD[OF Some] have "n \<in> set N" by simp
    moreover have "m \<in> overriddenMethods (funcs w' m')"
      by (simp add: r overridden_insertOverridden)
    ultimately show ?thesis using True r by simp
  qed
qed

lemma overrideSlots_spec:
  "overrideSlots co name N canHide i T w = (T', w') \<Longrightarrow>
   grows (funcs w) (funcs w') \<and> types w' = types w \<and>
   list_all2 (\<lambda>m m'. m' = m \<or> (fnName (funcs w m) = name \<and> m' \<in> set N \<and>
                                  m \<in> overriddenMethods (funcs w' m'))) T T'"
proof (induction T arbitrary: i w T' w')
  case Nil
  then show ?case by (simp add: grows_refl)
next
  case (Cons m T)
  obtain m1 w1 where s: "overrideSlot co name N canHide i m w = (m1, w1)"
    by (cases "overrideSlot co name N canHide i m w")
  obtain T1 w2 where r: "overrideSlots co name N canHide (Suc i) T w1 = (T1, w2)"
    by (cases "overrideSlots co name N canHide (Suc i) T w1")
  from Cons.prems s r have res: "T' = m1 # T1" "w' = w2" by simp_all
  note S = overrideSlot_spec[OF s]
  note R = Cons.IH[OF r]
  from S R have g: "grows (funcs w) (funcs w2)" "types w2 = types w"
    by (auto intro: grows_trans)
  from S R have hd: "m1 = m \<or> (fnName (funcs w m) = name \<and> m1 \<in> set N \<and>
                                  m \<in> overriddenMethods (funcs w2 m1))"
    by (auto dest: grows_overridden)
  from S have n: "fnName (funcs w1 x) = fnName (funcs w x)" for x
    by (simp add: grows_fnName)
  from R have tl: "list_all2 (\<lambda>m m'. m' = m \<or> (fnName (funcs w m) = name \<and> m' \<in> set N \<and>
                                  m \<in> overriddenMethods (funcs w2 m'))) T T1"
    by (simp add: n)
  from g hd tl show ?case unfolding res by simp
qed

lemma accessorSlots_spec:
  "accessorSlots co name pname N canHide i T w = (T', w') \<Longrightarrow>
   grows (funcs w) (funcs w') \<and> types w' = types w \<and>
   list_all2 (\<lambda>m m'. m' = m \<or> (fnName (funcs w m) = name \<and>
                                  fnParentProperty (funcs w m) = Some pname \<and> m' \<in> set N \<and>
                                  m \<in> overriddenMethods (funcs w' m'))) T T'"
proof (induction T arbitrary: i w T' w')
  case Nil
  then show ?case by (simp add: grows_refl)
next
  case (Cons m T)
  obtain m1 w1 where s: "accessorSlot co name pname N canHide i m w = (m1, w1)"
    by (cases "accessorSlot co name pname N canHide i m w")
  obtain T1 w2 where r: "accessorSlots co name pname N canHide (Suc i) T w1 = (T1, w2)"
    by (cases "accessorSlots co name pname N canHide (Suc i) T w1")
  from Cons.prems s r have res: "T' = m1 # T1" "w' = w2" by simp_all
  note S = accessorSlot_spec[OF s]
  note R = Cons.IH[OF r]
  from S R have g: "grows (funcs w) (funcs w2)" "types w2 = types w"
    by (auto intro: grows_trans)
  from S R have hd: "m1 = m \<or> (fnName (funcs w m) = name \<and>
        fnParentProperty (funcs w m) = Some pname \<and> m1 \<in> set N \<and>
        m \<in> overriddenMethods (funcs w2 m1))"
    by (auto dest: grows_overridden)
  from S have n: "fnName (funcs w1 x) = fnName (funcs w x)"
    "fnParentProperty (funcs w1 x) = fnParentProperty (funcs w x)" for x
    by (simp_all add: grows_fnName grows_fnParentProperty)
  from R have tl: "list_all2 (\<lambda>m m'. m' = m \<or> (fnName (funcs w m) = name \<and>
        fnParentProperty (funcs w m) = Some pname \<and> m' \<in> set N \<and>
        m \<in> overriddenMethods (funcs w2 m'))) T T1"
    by (simp add: n)
  from g hd tl show ?case unfolding res by simp
qed

lemma overrideMethods_spec:
  "tableSpec (\<lambda>canHide T. overrideMethods co T N canHide) \<lparr>stepNew = N, stepProperty = None\<rparr>"
  unfolding tableSpec_def
proof (intro allI impI)
  fix canHide T w T' w'
  assume a: "overrideMethods co T N canHide w = (T', w')"
  show "grows (funcs w) (funcs w') \<and> types w' = types w \<and>
        list_all2 (replacedBy (funcs w) (funcs w') \<lparr>stepNew = N, stepProperty = None\<rparr>) T T'"
  proof (cases N)
    case Nil
    with a show ?thesis
      by (simp add: overrideMethods_def grows_refl replacedBy_def list_all2_refl)
  next
    case (Cons front rest)
    with a have "overrideSlots co (fnName (funcs w front)) N canHide 0 T w = (T', w')"
      by (simp add: overrideMethods_def)
    from overrideSlots_spec[OF this] Cons show ?thesis
      by (auto simp: replacedBy_def stepMatch_def elim!: list_all2_mono)
  qed
qed

lemma overridePropertyAccessors_spec:
  "tableSpec (\<lambda>canHide T. overridePropertyAccessors co T p N canHide)
     \<lparr>stepNew = N, stepProperty = Some (propName p)\<rparr>"
  unfolding tableSpec_def
proof (intro allI impI)
  fix canHide T w T' w'
  assume a: "overridePropertyAccessors co T p N canHide w = (T', w')"
  show "grows (funcs w) (funcs w') \<and> types w' = types w \<and>
        list_all2 (replacedBy (funcs w) (funcs w') \<lparr>stepNew = N, stepProperty = Some (propName p)\<rparr>) T T'"
  proof (cases N)
    case Nil
    with a show ?thesis
      by (simp add: overridePropertyAccessors_def grows_refl replacedBy_def list_all2_refl)
  next
    case (Cons front rest)
    with a have "accessorSlots co (fnName (funcs w front)) (propName p) N canHide 0 T w = (T', w')"
      by (simp add: overridePropertyAccessors_def)
    from accessorSlots_spec[OF this] Cons show ?thesis
      by (auto simp: replacedBy_def stepMatch_def elim!: list_all2_mono)
  qed
qed




section \<open>Properties of the base-class analysis\<close>

lemma selectPrimary_struct_iface:
  "k = Type_Struct \<or> k = Type_Interface \<Longrightarrow>
   selectPrimary k bk np = Inr (ip, ds) \<Longrightarrow> ip \<longleftrightarrow> (np \<and> (bk = k \<or> bk = Type_Protocol))"
  by (auto split: if_splits)

lemma analyzeBases_primary:
  assumes k: "targetKind tg = Type_Struct \<or> targetKind tg = Type_Interface"
  shows "analyzeBases tg bs s = Inr (True, s') \<Longrightarrow>
    primaryBase s' =
      (case primaryBase s of
         Some p \<Rightarrow> Some p
       | None \<Rightarrow> map_option baseType (find (eligible tg) bs)) \<and>
    bases s' = bases s @ map baseType
      (case primaryBase s of
         Some p \<Rightarrow> bs
       | None \<Rightarrow> (case find (eligible tg) bs of None \<Rightarrow> bs | Some b \<Rightarrow> remove1 b bs))"
proof (induction bs arbitrary: s)
  case Nil
  then show ?case by (simp split: option.splits)
next
  case (Cons b bs)
  let ?s1 = "if baseIsFinal b then baseError BaseTypeIsFinal s else s"
  have s1: "primaryBase ?s1 = primaryBase s" "bases ?s1 = bases s"
    by (simp_all add: baseError_def)
  from Cons.prems obtain ip ds where
    sel: "selectPrimary (targetKind tg) (baseKind b) (primaryBase ?s1 = None) = Inr (ip, ds)"
    by (auto simp: Let_def split: if_splits sum.splits)
  let ?s2 = "?s1\<lparr>baseDiags := baseDiags ?s1 @ ds\<rparr>"
  let ?s3 = "if ip then ?s2\<lparr>primaryBase := Some (baseType b)\<rparr>
             else ?s2\<lparr>bases := bases ?s2 @ [baseType b]\<rparr>"
  from Cons.prems sel have rest: "analyzeBases tg bs ?s3 = Inr (True, s')"
    by (auto simp: Let_def split: if_splits)
  from selectPrimary_struct_iface[OF k sel] s1
  have ip: "ip \<longleftrightarrow> (primaryBase s = None \<and> eligible tg b)"
    by (auto simp: eligible_def)
  note IH = Cons.IH[OF rest]
  show ?case
  proof (cases ip)
    case True
    with ip have "primaryBase s = None" "eligible tg b" by simp_all
    with IH True s1 show ?thesis by simp
  next
    case False
    show ?thesis
    proof (cases "primaryBase s")
      case None
      with ip False have ne: "\<not> eligible tg b" by simp
      have "b' \<noteq> b" if "find (eligible tg) bs = Some b'" for b'
        using that ne by (auto simp: find_Some_iff)
      with IH False s1 None ne show ?thesis by (simp split: option.splits)
    next
      case (Some p)
      with IH False s1 show ?thesis by simp
    qed
  qed
qed

lemma selectPrimary_diags:
  assumes "targetKind tg = Type_Struct \<or> targetKind tg = Type_Interface"
    and "selectPrimary (targetKind tg) (baseKind b) np = Inr (ip, ds)"
  shows "ds =
     (if \<not> eligible tg b
      then [if targetKind tg = Type_Struct then StructBaseKind else InterfaceBaseKind]
      else if \<not> np \<and> targetKind tg = Type_Struct then [StructSingleSupertype] else [])"
  using assms by (auto simp: eligible_def split: if_splits)

lemma baseDiagsAt_Cons_0:
  "baseDiagsAt tg had (b # bs) 0 =
     (if baseIsFinal b then [BaseTypeIsFinal] else []) @
     (if \<not> eligible tg b
      then [if targetKind tg = Type_Struct then StructBaseKind else InterfaceBaseKind]
      else if had \<and> targetKind tg = Type_Struct then [StructSingleSupertype] else [])"
  by (simp add: baseDiagsAt_def)

lemma baseDiagsAt_Cons_Suc:
  "baseDiagsAt tg had (b # bs) (Suc i) = baseDiagsAt tg (had \<or> eligible tg b) bs i"
  by (simp add: baseDiagsAt_def disj_assoc)

lemma upt_0_Suc_map: "map f [0..<Suc n] = f 0 # map (\<lambda>i. f (Suc i)) [0..<n]"
proof -
  have "[0..<Suc n] = 0 # map Suc [0..<n]"
    by (simp only: map_Suc_upt upt_conv_Cons[of 0 "Suc n"] zero_less_Suc)
  then show ?thesis by (simp add: comp_def)
qed

lemma analyzeBases_diags:
  assumes k: "targetKind tg = Type_Struct \<or> targetKind tg = Type_Interface"
  shows "analyzeBases tg bs s = Inr (True, s') \<Longrightarrow>
    baseDiags s' =
      baseDiags s @ concat (map (baseDiagsAt tg (primaryBase s \<noteq> None) bs) [0..<length bs])"
proof (induction bs arbitrary: s)
  case Nil
  then show ?case by simp
next
  case (Cons b bs)
  let ?s1 = "if baseIsFinal b then baseError BaseTypeIsFinal s else s"
  have s1: "primaryBase ?s1 = primaryBase s"
    "baseDiags ?s1 = baseDiags s @ (if baseIsFinal b then [BaseTypeIsFinal] else [])"
    by (simp_all add: baseError_def)
  from Cons.prems obtain ip ds where
    sel: "selectPrimary (targetKind tg) (baseKind b) (primaryBase ?s1 = None) = Inr (ip, ds)"
    by (auto simp: Let_def split: if_splits sum.splits)
  let ?s2 = "?s1\<lparr>baseDiags := baseDiags ?s1 @ ds\<rparr>"
  let ?s3 = "if ip then ?s2\<lparr>primaryBase := Some (baseType b)\<rparr>
             else ?s2\<lparr>bases := bases ?s2 @ [baseType b]\<rparr>"
  from Cons.prems sel have rest: "analyzeBases tg bs ?s3 = Inr (True, s')"
    by (auto simp: Let_def split: if_splits)
  from selectPrimary_struct_iface[OF k sel] s1
  have ip: "ip \<longleftrightarrow> (primaryBase s = None \<and> eligible tg b)"
    by (auto simp: eligible_def)
  have ds: "ds =
     (if \<not> eligible tg b
      then [if targetKind tg = Type_Struct then StructBaseKind else InterfaceBaseKind]
      else if primaryBase s \<noteq> None \<and> targetKind tg = Type_Struct
      then [StructSingleSupertype] else [])"
    using selectPrimary_diags[OF k sel] s1(1) by simp
  have p3: "primaryBase ?s3 \<noteq> None \<longleftrightarrow> primaryBase s \<noteq> None \<or> eligible tg b"
    using ip s1(1) by (cases ip) auto
  have d3: "baseDiags ?s3 =
      baseDiags s @ baseDiagsAt tg (primaryBase s \<noteq> None) (b # bs) 0"
    unfolding baseDiagsAt_Cons_0 ds[symmetric] using s1(2) by simp
  from Cons.IH[OF rest]
  have "baseDiags s' = baseDiags ?s3 @
      concat (map (baseDiagsAt tg (primaryBase s \<noteq> None \<or> eligible tg b) bs) [0..<length bs])"
    unfolding p3 .
  then show ?case
    unfolding d3 by (simp add: upt_0_Suc_map baseDiagsAt_Cons_Suc del: upt_Suc)
qed

text \<open>
  Claim C5, as stated, says that a protocol-kind base of a struct or of an interface is
  recorded as a secondary base and never becomes the primary base. A struct whose only base
  is a protocol gets that protocol as its primary base: \<open>super\<close> is set to it and it
  stands first in \<open>bases\<close>.
\<close>

theorem protocol_base_counterexample:
  "baseKind protocolBase = Type_Protocol \<and>
   analyzeBaseClassesImpl structTarget [protocolBase] noBases =
     Inr (True, \<lparr>primaryBase = Some 7, bases = [7], super = Some 7, baseDiags = []\<rparr>)"
  by (simp add: analyzeBaseClassesImpl_def structTarget_def protocolBase_def noBases_def
      checkFinality_def setSuper_def Let_def)

text \<open>
  Claim C5 (amended). When the base-class analysis of a struct or of an interface returns
  true, the primary base is the first declared base that is of the target's own kind or of
  protocol kind, so a protocol-kind base is selected as the primary base when no struct-kind
  (interface-kind) or protocol-kind base precedes it. Every other base, protocol-kind ones
  included, is recorded as a secondary base after the primary one, in declaration order.
  The diagnostics are, base by base: the error for a final base; the error for a base that
  is neither of the target's kind nor a protocol; and, for a struct only, the error
  ``structs can only have a single concrete supertype'' for each struct-kind or
  protocol-kind base that follows the primary one.
\<close>

theorem primary_base_of_struct_or_interface:
  assumes "targetKind tg = Type_Struct \<or> targetKind tg = Type_Interface"
    and "hasAST tg"
    and "analyzeBaseClassesImpl tg astBases noBases = Inr (True, s')"
  shows "super s' = map_option baseType (find (eligible tg) astBases) \<and>
         bases s' =
           (case find (eligible tg) astBases of
              None \<Rightarrow> map baseType astBases
            | Some b \<Rightarrow> baseType b # map baseType (remove1 b astBases)) \<and>
         baseDiags s' =
           (if targetIsFinal tg \<and> targetKind tg = Type_Interface
            then [InterfaceCannotBeFinal] else []) @
           concat (map (baseDiagsAt tg False astBases) [0..<length astBases])"
proof -
  let ?s0 = "checkFinality tg (noBases\<lparr>primaryBase := None\<rparr>)"
  have s0: "primaryBase ?s0 = None" "bases ?s0 = []"
    "baseDiags ?s0 = (if targetIsFinal tg \<and> targetKind tg = Type_Interface
            then [InterfaceCannotBeFinal] else [])"
    using assms(1) by (auto simp: checkFinality_def baseError_def noBases_def)
  from assms(2,3) obtain s1 where
    loop: "analyzeBases tg astBases ?s0 = Inr (True, s1)" and s': "s' = setSuper tg s1"
    by (auto simp: analyzeBaseClassesImpl_def split: sum.splits bool.splits if_splits)
  from analyzeBases_primary[OF assms(1) loop] s0
  have p: "primaryBase s1 = map_option baseType (find (eligible tg) astBases)"
    and b: "bases s1 = map baseType
      (case find (eligible tg) astBases of None \<Rightarrow> astBases | Some b \<Rightarrow> remove1 b astBases)"
    by simp_all
  from analyzeBases_diags[OF assms(1) loop] s0
  have d: "baseDiags s1 =
           (if targetIsFinal tg \<and> targetKind tg = Type_Interface
            then [InterfaceCannotBeFinal] else []) @
           concat (map (baseDiagsAt tg False astBases) [0..<length astBases])"
    by simp
  from assms(1) have nc: "targetKind tg \<noteq> Type_Class" by auto
  have "baseDiags s' = baseDiags s1"
    unfolding s' by (simp add: setSuper_def Let_def split: option.splits)
  with d have d': "baseDiags s' =
           (if targetIsFinal tg \<and> targetKind tg = Type_Interface
            then [InterfaceCannotBeFinal] else []) @
           concat (map (baseDiagsAt tg False astBases) [0..<length astBases])"
    by simp
  have "super s' = map_option baseType (find (eligible tg) astBases) \<and>
         bases s' =
           (case find (eligible tg) astBases of
              None \<Rightarrow> map baseType astBases
            | Some b \<Rightarrow> baseType b # map baseType (remove1 b astBases))"
    using p b nc unfolding s' by (simp add: setSuper_def Let_def split: option.splits)
  with d' show ?thesis by simp
qed

theorem primary_base_of_struct_or_interface_witness:
  "analyzeBaseClassesImpl structTarget [protocolBase, structBase] noBases =
     Inr (True, snd (projr (analyzeBaseClassesImpl structTarget [protocolBase, structBase] noBases))) \<and>
   super (snd (projr (analyzeBaseClassesImpl structTarget [protocolBase, structBase] noBases))) = Some 7 \<and>
   bases (snd (projr (analyzeBaseClassesImpl structTarget [protocolBase, structBase] noBases))) = [7, 8] \<and>
   baseDiags (snd (projr (analyzeBaseClassesImpl structTarget [protocolBase, structBase] noBases))) =
     [StructSingleSupertype]"
proof -
  have k: "targetKind structTarget = Type_Struct \<or> targetKind structTarget = Type_Interface"
    and a: "hasAST structTarget" by (simp_all add: structTarget_def)
  have r: "analyzeBaseClassesImpl structTarget [protocolBase, structBase] noBases =
      Inr (True, snd (projr (analyzeBaseClassesImpl structTarget [protocolBase, structBase] noBases)))"
    by (simp add: analyzeBaseClassesImpl_def structTarget_def protocolBase_def structBase_def
        noBases_def checkFinality_def setSuper_def Let_def)
  have e: "find (eligible structTarget) [protocolBase, structBase] = Some protocolBase"
    by (simp add: eligible_def structTarget_def protocolBase_def)
  have u: "[0..<length [protocolBase, structBase]] = [0, Suc 0]" by (simp add: upt_rec)
  have d: "baseDiagsAt structTarget False [protocolBase, structBase] 0 = []"
    "baseDiagsAt structTarget False [protocolBase, structBase] (Suc 0) = [StructSingleSupertype]"
    by (simp_all add: baseDiagsAt_def eligible_def structTarget_def protocolBase_def structBase_def)
  have bt: "baseType protocolBase = 7" "baseType structBase = 8"
    "remove1 protocolBase [protocolBase, structBase] = [structBase]"
    "\<not> targetIsFinal structTarget"
    by (simp_all add: protocolBase_def structBase_def structTarget_def)
  note t = primary_base_of_struct_or_interface[OF k a r, unfolded e u]
  from t r show ?thesis by (simp add: bt d)
qed

section \<open>Properties of the field pass\<close>

lemma addsOnly_simplePass: "addsOnly p (simplePass p q)"
  by (auto simp: addsOnly_def simplePass_def beginPass_def finishPass_def split: if_splits)

lemma addsOnly_scopeCreation: "addsOnly ScopeCreationPass (scopeCreation tg)"
  by (auto simp: addsOnly_def scopeCreation_def beginPass_def finishPass_def split: if_splits)

lemma addsOnly_attributePass: "addsOnly AttributePass (attributePass tg)"
  by (auto simp: addsOnly_def attributePass_def beginPass_def finishPass_def split: if_splits)

lemma addsOnly_checkNameConflicts: "addsOnly NamingConflictPass (checkNameConflicts tg)"
  by (auto simp: addsOnly_def checkNameConflicts_def beginPass_def finishPass_def Let_def
      split: if_splits)

lemma addsOnly_analyzeBaseClasses: "addsOnly BaseTypesPass (analyzeBaseClasses tg)"
  by (auto simp: addsOnly_def analyzeBaseClasses_def isRunning_def beginPass_def finishPass_def
      split: if_splits)

lemma addsOnly_analyzeConstructors: "addsOnly ConstructorPass (analyzeConstructors tg)"
  by (auto simp: addsOnly_def analyzeConstructors_def beginPass_def finishPass_def split: if_splits)

lemma addsOnlyD: "addsOnly p f \<Longrightarrow> finished (snd (f st)) \<subseteq> insert p (finished st)"
  unfolding addsOnly_def by (drule spec[of _ st])

lemma runSteps_finished_subset:
  assumes "\<forall>pf \<in> set pfs. addsOnly (fst pf) (snd pf)"
  shows "finished (snd (runSteps (map (\<lambda>pf. whenContains S (fst pf) (snd pf)) pfs) st))
           \<subseteq> finished st \<union> S"
  using assms
proof (induction pfs arbitrary: st)
  case Nil
  then show ?case by simp
next
  case (Cons pf pfs)
  obtain b st1 where r: "whenContains S (fst pf) (snd pf) st = (b, st1)"
    by (cases "whenContains S (fst pf) (snd pf) st")
  from Cons.prems have ok: "addsOnly (fst pf) (snd pf)" by simp
  have st1: "finished st1 \<subseteq> finished st \<union> S"
  proof (cases "fst pf \<in> S")
    case True
    with r have "snd pf st = (b, st1)" by (simp add: whenContains_def)
    with addsOnlyD[OF ok, of st] True show ?thesis by auto
  next
    case False
    with r show ?thesis by (simp add: whenContains_def)
  qed
  show ?case
  proof (cases b)
    case False
    with r st1 show ?thesis by simp
  next
    case True
    from Cons.prems have "\<forall>pf \<in> set pfs. addsOnly (fst pf) (snd pf)" by simp
    from Cons.IH[OF this, of st1] st1 r True show ?thesis by auto
  qed
qed

lemma plainSteps_addsOnly: "\<forall>pf \<in> set (plainSteps tg). addsOnly (fst pf) (snd pf)"
  by (simp add: plainSteps_def addsOnly_simplePass addsOnly_scopeCreation addsOnly_attributePass
      addsOnly_checkNameConflicts addsOnly_analyzeBaseClasses addsOnly_analyzeConstructors
      analyzeMemberTypes_def analyzeFields_def analyzeConverters_def analyzeMethods_def
      analyzeOverloading_def analyzeFieldTypes_def analyzeCompletely_def)

lemma runPasses_finished_subset:
  "finished (snd (runPasses tg passSet st)) \<subseteq> finished st \<union> passSet"
proof (cases "passSet - finished st = {}")
  case True
  then show ?thesis by (simp add: runPasses_def)
next
  case ne: False
  show ?thesis
  proof (cases "isTemplate tg")
    case True
    let ?pfs = "[(BaseTypesPass, analyzeBaseClasses tg), (ScopeCreationPass, scopeCreation tg)]"
    have a: "\<forall>pf \<in> set ?pfs. addsOnly (fst pf) (snd pf)"
      by (simp add: addsOnly_analyzeBaseClasses addsOnly_scopeCreation)
    have "runPasses tg passSet st =
        runSteps (map (\<lambda>pf. whenContains (passSet - finished st) (fst pf) (snd pf)) ?pfs) st"
      using ne True by (simp add: runPasses_def Let_def del: runSteps.simps)
    with runSteps_finished_subset[OF a, of "passSet - finished st" st] show ?thesis by auto
  next
    case False
    show ?thesis
    proof (cases "isTemplateMember tg")
      case True
      with ne False show ?thesis by (simp add: runPasses_def Let_def)
    next
      case nm: False
      from runPasses_plain[OF False nm ne]
        runSteps_finished_subset[OF plainSteps_addsOnly[of tg], of "passSet - finished st" st]
      show ?thesis by auto
    qed
  qed
qed

lemma prepareSuper_FieldPass:
  "isFinished FieldPass (superPasses (prepareSuper sc)) \<longleftrightarrow> isFinished FieldPass (superPasses sc)"
proof (cases "isFinished FieldPass (superPasses sc)")
  case True
  then show ?thesis by (simp add: prepareSuper_def)
next
  case False
  have "FieldPass \<notin> PASS_SET_RESOLVE_TYPE" by (simp add: PASS_SET_RESOLVE_TYPE_def)
  with runPasses_finished_subset[of "superTarget sc" PASS_SET_RESOLVE_TYPE "superPasses sc"] False
  show ?thesis by (auto simp: prepareSuper_def isFinished_def)
qed

lemma prepareSuper_fields: "superInstanceFields (prepareSuper sc) = superInstanceFields sc"
  by (simp add: prepareSuper_def)

lemma storedFields_Cons:
  "storedFields (m # ms) = (if isStored m then m # storedFields ms else storedFields ms)"
  by (simp add: storedFields_def)

lemma storedFields_Nil: "storedFields [] = []"
  by (simp add: storedFields_def)

lemma isStored_indices [simp]:
  "isStored (m\<lparr>memberIndex := a, memberIndexRecursive := b\<rparr>) = isStored m"
  by (simp add: isStored_def isStorageRequired_def)

lemma fieldStep_stored:
  assumes "isStored m" and "fieldStep tc m s = Inr (m', s')"
  shows "m' = m\<lparr>memberIndex := instanceFieldCount s,
                  memberIndexRecursive := instanceFieldCountRecursive s\<rparr>"
    and "instanceFields s' = instanceFields s @ [Some m']"
    and "instanceFieldCount s' = instanceFieldCount s + 1"
    and "instanceFieldCountRecursive s' = instanceFieldCountRecursive s + 1"
  using assms
  by (auto simp: fieldStep_def isStored_def Let_def split: if_splits)

lemma fieldStep_not_stored:
  assumes "\<not> isStored m" and "fieldStep tc m s = Inr (m', s')"
  shows "m' = m"
    and "instanceFields s' = instanceFields s"
    and "instanceFieldCount s' = instanceFieldCount s"
    and "instanceFieldCountRecursive s' = instanceFieldCountRecursive s"
  using assms
  by (auto simp: fieldStep_def isStored_def Let_def split: if_splits)

lemma upt_shift: "map f [0..<Suc n] = f 0 # map (\<lambda>k. f (Suc k)) [0..<n]"
proof -
  have "[0..<Suc n] = 0 # map Suc [0..<n]"
    by (simp only: map_Suc_upt upt_conv_Cons[of 0 "Suc n"] zero_less_Suc)
  then show ?thesis by (simp add: comp_def)
qed

lemma withIndices_Nil: "withIndices a b [] = []"
  by (simp add: withIndices_def)

lemma withIndices_Cons:
  "withIndices a b (m # ms) =
     (if isStored m
      then m\<lparr>memberIndex := a, memberIndexRecursive := b\<rparr> # withIndices (a + 1) (b + 1) ms
      else m # withIndices a b ms)"
  unfolding withIndices_def length_Cons upt_shift
  by (simp add: storedFields_Cons storedFields_Nil add.assoc del: upt_Suc)

lemma length_storedFields_withIndices:
  "length (storedFields (withIndices a b ms)) = length (storedFields ms)"
  by (induction ms arbitrary: a b) (simp_all add: withIndices_Nil withIndices_Cons storedFields_Cons)

lemma fieldLoop_layout:
  "fieldLoop tc ms s = Inr (ms', s') \<Longrightarrow>
   ms' = withIndices (instanceFieldCount s) (instanceFieldCountRecursive s) ms \<and>
   instanceFields s' = instanceFields s @ map Some (storedFields ms') \<and>
   instanceFieldCount s' = instanceFieldCount s + of_nat (length (storedFields ms)) \<and>
   instanceFieldCountRecursive s' =
     instanceFieldCountRecursive s + of_nat (length (storedFields ms))"
proof (induction ms arbitrary: s ms' s')
  case Nil
  then show ?case by (simp add: storedFields_Nil withIndices_Nil)
next
  case (Cons m ms)
  from Cons.prems obtain m1 s1 where step: "fieldStep tc m s = Inr (m1, s1)"
    by (auto split: sum.splits)
  with Cons.prems obtain ms1 s2 where loop: "fieldLoop tc ms s1 = Inr (ms1, s2)"
    by (auto split: sum.splits)
  from Cons.prems step loop have res: "ms' = m1 # ms1" "s' = s2" by simp_all
  note IH = Cons.IH[OF loop]
  show ?case
  proof (cases "isStored m")
    case True
    note st = fieldStep_stored[OF True step]
    from st(1) True have s1: "isStored m1" by simp
    show ?thesis
      unfolding res using IH st True s1
      by (simp add: withIndices_Cons storedFields_Cons add.assoc)
  next
    case False
    note st = fieldStep_not_stored[OF False step]
    show ?thesis
      unfolding res using IH st False
      by (simp add: withIndices_Cons storedFields_Cons)
  qed
qed

lemma fieldCountRecursive_prepareSuper:
  "fieldCountRecursive (prepareSuper sc # rest) = fieldCountRecursive (sc # rest)"
  by (simp add: fieldCountRecursive_def prepareSuper_fields)

text \<open>
  What the field pass leaves when it finishes, for a type whose \<open>instanceFields_\<close> was
  empty: slot 0 of \<open>instanceFields\<close> is the reserved (null) superclass slot if and only if
  the type has a super; after it come the instance-storage fields in declaration order;
  these fields, and no other member, have got their indices, the per-type index counting
  up from 0 without a super and from 1 with one, the recursive index counting up from the
  value that \<open>instanceFieldCountRecursive()\<close> of the super returns at line 473; and
  \<open>|instanceFields|\<close> equals the per-type instance field count. The super, when its field
  pass was not finished, has been analysed for \<open>Task_PrepTypeComparison\<close>, which leaves
  its field pass unfinished and its field list as it was.
\<close>

lemma field_layout:
  assumes "analyzeFieldsBody tc chain members [] = Inr (chain1, members1, s)"
  shows "chain1 = (case chain of [] \<Rightarrow> [] | sc # rest \<Rightarrow> prepareSuper sc # rest)"
    and "members1 =
           withIndices (if chain = [] then 0 else 1)
             (if chain = [] then 0 else fieldCountRecursive chain) members"
    and "instanceFields s =
           (if chain = [] then [] else [None]) @ map Some (storedFields members1)"
    and "(\<exists>rest. instanceFields s = None # rest) \<longleftrightarrow> chain \<noteq> []"
    and "instanceFieldCount s =
           (if chain = [] then 0 else 1) + of_nat (length (storedFields members))"
    and "(of_nat (length (instanceFields s)) :: 64 word) = scast (instanceFieldCount s)"
    and "\<And>sc rest. chain = sc # rest \<Longrightarrow>
           isFinished FieldPass (superPasses (hd chain1)) = isFinished FieldPass (superPasses sc)"
proof -
  define c1 where "c1 = (case chain of [] \<Rightarrow> [] | sc # rest \<Rightarrow> prepareSuper sc # rest)"
  define s0 where "s0 =
            (case c1 of
               [] \<Rightarrow>
                 \<lparr>instanceFieldCount = 0, instanceFieldCountRecursive = 0,
                  instanceFields = [], staticFields = [], fieldDiags = []\<rparr>
             | sc # rest \<Rightarrow>
                 \<lparr>instanceFieldCount = 1,
                  instanceFieldCountRecursive = fieldCountRecursive c1,
                  instanceFields = [] @ [None], staticFields = [], fieldDiags = []\<rparr>)"
  from assms have loop: "fieldLoop tc members s0 = Inr (members1, s)"
    and c: "chain1 = c1"
    and a: "(of_nat (length (instanceFields s)) :: 64 word) = scast (instanceFieldCount s)"
    unfolding analyzeFieldsBody_def c1_def[symmetric] Let_def s0_def[symmetric]
    by (auto split: sum.splits if_splits)
  have s0: "instanceFields s0 = (if chain = [] then [] else [None])"
    "instanceFieldCount s0 = (if chain = [] then 0 else 1)"
    "instanceFieldCountRecursive s0 = (if chain = [] then 0 else fieldCountRecursive chain)"
    by (cases chain; simp add: s0_def c1_def fieldCountRecursive_prepareSuper)+
  note L = fieldLoop_layout[OF loop, unfolded s0]
  from c show "chain1 = (case chain of [] \<Rightarrow> [] | sc # rest \<Rightarrow> prepareSuper sc # rest)"
    by (simp add: c1_def)
  from L show "members1 =
           withIndices (if chain = [] then 0 else 1)
             (if chain = [] then 0 else fieldCountRecursive chain) members" by simp
  from L show f: "instanceFields s =
           (if chain = [] then [] else [None]) @ map Some (storedFields members1)" by simp
  show "(\<exists>rest. instanceFields s = None # rest) \<longleftrightarrow> chain \<noteq> []"
    unfolding f by (cases "storedFields members1") auto
  from L show "instanceFieldCount s =
           (if chain = [] then 0 else 1) + of_nat (length (storedFields members))" by simp
  from a show "(of_nat (length (instanceFields s)) :: 64 word) = scast (instanceFieldCount s)" .
  show "isFinished FieldPass (superPasses (hd chain1)) = isFinished FieldPass (superPasses sc)"
    if "chain = sc # rest" for sc rest
    using that c by (simp add: c1_def prepareSuper_FieldPass)
qed



section \<open>Properties of the override substep\<close>













lemma messages_setInstanceMethods [simp]:
  "messages (setInstanceMethods t ms w) = messages w"
  by (simp add: setInstanceMethods_def)

lemma messages_setInterfaces [simp]:
  "messages (setInterfaces t its w) = messages w"
  by (simp add: setInterfaces_def)














end
